theory Spec2Isabelle
  imports Main "HOL-Library.Sublist"
begin

section \<open>Strings and JSON values of the board controller\<close>

text \<open>
  The controller of \<^verbatim>\<open>src/index.tsx\<close> (the React component \<^verbatim>\<open>CanvasRoot\<close>) works on
  JavaScript strings and on values decoded from JSON (the bootstrap response, the library
  cache). A JavaScript string is a sequence of UTF-16 code units; the model takes the code
  units 0..255, one \<^typ>\<open>char\<close> each, so that \<^verbatim>\<open>slice\<close>, \<^verbatim>\<open>includes\<close>, \<^verbatim>\<open>trim\<close> and
  \<^verbatim>\<open>toLowerCase\<close> are the list functions below. Strings with code units above 255 are
  outside the model.
\<close>

definition is_space :: "char \<Rightarrow> bool" where
  \<comment> \<open>the white space and line terminators that \<^verbatim>\<open>String.prototype.trim\<close> strips, among
      the code units 0..255: TAB, LF, VT, FF, CR, SP, NBSP\<close>
  "is_space c = ((of_char c :: nat) \<in> {9, 10, 11, 12, 13, 32, 160})"

definition trim :: "string \<Rightarrow> string" where
  "trim s = rev (dropWhile is_space (rev (dropWhile is_space s)))"

definition lower_unit :: "char \<Rightarrow> char" where
  \<comment> \<open>the lower-case mapping of one code unit: A..Z, and the Latin-1 capitals
      U+00C0..U+00DE without the multiplication sign U+00D7\<close>
  "lower_unit c =
     (let n = (of_char c :: nat)
      in if (65 \<le> n \<and> n \<le> 90) \<or> (192 \<le> n \<and> n \<le> 222 \<and> n \<noteq> 215)
         then char_of (n + 32) else c)"

definition toLowerCase :: "string \<Rightarrow> string" where
  "toLowerCase s = map lower_unit s"

fun includes_str :: "string \<Rightarrow> string \<Rightarrow> bool" where
  \<comment> \<open>\<^verbatim>\<open>h.includes(q)\<close>: \<open>q\<close> occurs in \<open>h\<close> as a contiguous substring\<close>
  "includes_str [] q = (q = [])"
| "includes_str (c # cs) q = (prefix q (c # cs) \<or> includes_str cs q)"

definition digit_char :: "nat \<Rightarrow> char" where
  "digit_char d = char_of (48 + d)"

fun show_nat :: "nat \<Rightarrow> string" where
  \<comment> \<open>\<^verbatim>\<open>String(n)\<close> for an array index \<open>n\<close>: its decimal numeral\<close>
  "show_nat n = (if n < 10 then [digit_char n] else show_nat (n div 10) @ [digit_char (n mod 10)])"

declare show_nat.simps [simp del]

text \<open>
  A decoded JSON value. The program does no arithmetic on the numbers it decodes: it only
  tests them for truthiness and prints them with \<^verbatim>\<open>String\<close>. A number is therefore carried as
  the text JavaScript prints for it (\<open>JNum ''0''\<close> is zero, \<open>JNum ''1.5''\<close> is 1.5).
  An object is the list of its members, read with \<^const>\<open>map_of\<close>.
  \<^verbatim>\<open>undefined\<close> is \<open>None\<close> of \<^typ>\<open>'a option\<close>.
\<close>

datatype json =
    JNull
  | JBool bool
  | JNum string
  | JStr string
  | JArr "json list"
  | JObj "(string \<times> json) list"

datatype exn = TypeError | StorageError | CanvasError

fun truthy :: "json option \<Rightarrow> bool" where
  "truthy None = False"
| "truthy (Some JNull) = False"
| "truthy (Some (JBool b)) = b"
| "truthy (Some (JNum t)) = (t \<noteq> ''0'')"
| "truthy (Some (JStr s)) = (s \<noteq> [])"
| "truthy (Some (JArr xs)) = True"
| "truthy (Some (JObj kvs)) = True"

fun get_prop :: "json \<Rightarrow> string \<Rightarrow> exn + json option" where
  \<comment> \<open>\<^verbatim>\<open>v.k\<close> for the property names the program reads (\<^verbatim>\<open>id\<close>, \<^verbatim>\<open>elements\<close>, \<^verbatim>\<open>type\<close>,
      \<^verbatim>\<open>text\<close>, \<^verbatim>\<open>data\<close>, \<^verbatim>\<open>updatedAt\<close>): reading a property of \<^verbatim>\<open>null\<close> throws, an
      object gives its member or \<^verbatim>\<open>undefined\<close>, every other value gives \<^verbatim>\<open>undefined\<close>\<close>
  "get_prop JNull k = Inl TypeError"
| "get_prop (JObj kvs) k = Inr (map_of kvs k)"
| "get_prop v k = Inr None"

fun opt_prop :: "json option \<Rightarrow> string \<Rightarrow> json option" where
  \<comment> \<open>optional chaining \<^verbatim>\<open>v?.k\<close>: \<^verbatim>\<open>undefined\<close> when \<open>v\<close> is \<^verbatim>\<open>null\<close> or \<^verbatim>\<open>undefined\<close>\<close>
  "opt_prop None k = None"
| "opt_prop (Some JNull) k = None"
| "opt_prop (Some (JObj kvs)) k = map_of kvs k"
| "opt_prop (Some v) k = None"

fun join_comma :: "string list \<Rightarrow> string" where
  "join_comma [] = []"
| "join_comma [s] = s"
| "join_comma (s # t # ts) = s @ '','' @ join_comma (t # ts)"

fun collect :: "('e + 'a) list \<Rightarrow> 'e + 'a list" where
  \<comment> \<open>the results of a loop that stops at the first exception\<close>
  "collect [] = Inr []"
| "collect (Inl e # rs) = Inl e"
| "collect (Inr x # rs) = (case collect rs of Inl e \<Rightarrow> Inl e | Inr xs \<Rightarrow> Inr (x # xs))"

fun js_String :: "json \<Rightarrow> exn + string" where
  \<comment> \<open>\<^verbatim>\<open>String(v)\<close>. An array prints its elements joined by commas, \<^verbatim>\<open>null\<close> elements as
      the empty string. An object prints as \<^verbatim>\<open>[object Object]\<close>, unless it has a member
      named \<^verbatim>\<open>toString\<close>: that member is not a function, and the conversion throws\<close>
  "js_String JNull = Inr ''null''"
| "js_String (JBool b) = Inr (if b then ''true'' else ''false'')"
| "js_String (JNum t) = Inr t"
| "js_String (JStr s) = Inr s"
| "js_String (JArr xs) =
     (case collect (map (\<lambda>x. if x = JNull then Inr [] else js_String x) xs) of
        Inl e \<Rightarrow> Inl e
      | Inr ss \<Rightarrow> Inr (join_comma ss))"
| "js_String (JObj kvs) =
     (if map_of kvs ''toString'' \<noteq> None then Inl TypeError else Inr ''[object Object]'')"

section \<open>The asset catalog: labels and the presentation view\<close>

record entry =
  entry_id :: string
  label :: string
  haystack :: string
  isStarred :: bool

definition placeholder :: "nat \<Rightarrow> string" where
  \<comment> \<open>\<^verbatim>\<open>`Item ${index + 1}`\<close>\<close>
  "placeholder index = ''Item '' @ show_nat (index + 1)"

definition is_text_el :: "json \<Rightarrow> bool" where
  \<comment> \<open>the callback of \<^verbatim>\<open>find\<close>:
      \<^verbatim>\<open>el && el.type === "text" && typeof el.text === "string" && el.text.trim()\<close>\<close>
  "is_text_el el =
     (truthy (Some el) \<and>
      (case get_prop el ''type'' of
         Inr (Some (JStr ty)) \<Rightarrow>
           ty = ''text'' \<and>
           (case get_prop el ''text'' of
              Inr (Some (JStr t)) \<Rightarrow> trim t \<noteq> []
            | _ \<Rightarrow> False)
       | _ \<Rightarrow> False))"

definition label_try :: "json \<Rightarrow> exn + string option" where
  \<comment> \<open>the body of the \<^verbatim>\<open>try\<close> block of the label derivation: \<open>Inl\<close> when it throws,
      \<open>Inr (Some l)\<close> when it assigns \<open>l\<close> to \<^verbatim>\<open>label\<close>, \<open>Inr None\<close> when it leaves the
      label as it is. \<^verbatim>\<open>(anyItem.elements || []).find\<close> is a function only on an array\<close>
  "label_try anyItem =
     (case get_prop anyItem ''elements'' of
        Inl e \<Rightarrow> Inl e
      | Inr els \<Rightarrow>
          (case (if truthy els then els else Some (JArr [])) of
             Some (JArr xs) \<Rightarrow>
               (let textEl = find is_text_el xs
                in case opt_prop textEl ''text'' of
                     None \<Rightarrow> Inr None
                   | Some txt \<Rightarrow>
                       if truthy (Some txt)
                       then (case js_String txt of
                               Inl e \<Rightarrow> Inl e
                             | Inr t \<Rightarrow> Inr (Some (take 60 t)))
                       else Inr None)
           | _ \<Rightarrow> Inl TypeError))"

definition derive_label :: "json \<Rightarrow> nat \<Rightarrow> string" where
  \<comment> \<open>\<^verbatim>\<open>let label = ...; try { ... } catch { }\<close>\<close>
  "derive_label anyItem index =
     (case label_try anyItem of
        Inr (Some l) \<Rightarrow> l
      | _ \<Rightarrow> placeholder index)"

definition derive_id :: "json \<Rightarrow> nat \<Rightarrow> exn + string" where
  \<comment> \<open>\<^verbatim>\<open>String(anyItem.id ?? index)\<close>, outside the \<^verbatim>\<open>try\<close> block\<close>
  "derive_id anyItem index =
     (case get_prop anyItem ''id'' of
        Inl e \<Rightarrow> Inl e
      | Inr None \<Rightarrow> Inr (show_nat index)
      | Inr (Some JNull) \<Rightarrow> Inr (show_nat index)
      | Inr (Some v) \<Rightarrow> js_String v)"

definition derive_entry :: "string list \<Rightarrow> json \<Rightarrow> nat \<Rightarrow> exn + entry" where
  \<comment> \<open>the callback of \<^verbatim>\<open>libraryItems.map\<close>\<close>
  "derive_entry starredLibraryIds anyItem index =
     (case derive_id anyItem index of
        Inl e \<Rightarrow> Inl e
      | Inr i \<Rightarrow>
          (let l = derive_label anyItem index
           in Inr \<lparr>entry_id = i, label = l, haystack = toLowerCase l,
                   isStarred = (i \<in> set starredLibraryIds)\<rparr>))"

fun derive_entries :: "string list \<Rightarrow> json list \<Rightarrow> nat \<Rightarrow> exn + entry list" where
  \<comment> \<open>\<^verbatim>\<open>libraryItems.map((item, index) => ...)\<close> from position \<open>index\<close> on; the first callback
      that throws ends the whole computation\<close>
  "derive_entries st [] index = Inr []"
| "derive_entries st (x # xs) index =
     (case derive_entry st x index of
        Inl e \<Rightarrow> Inl e
      | Inr en \<Rightarrow>
          (case derive_entries st xs (Suc index) of
             Inl e \<Rightarrow> Inl e
           | Inr ens \<Rightarrow> Inr (en # ens)))"

definition star_cmp :: "entry \<Rightarrow> entry \<Rightarrow> int" where
  \<comment> \<open>\<^verbatim>\<open>(a, b) => Number(b.isStarred) - Number(a.isStarred)\<close>\<close>
  "star_cmp a b = (if isStarred b then 1 else 0) - (if isStarred a then 1 else 0)"

fun insert_by :: "('a \<Rightarrow> 'a \<Rightarrow> int) \<Rightarrow> 'a \<Rightarrow> 'a list \<Rightarrow> 'a list" where
  "insert_by cmp x [] = [x]"
| "insert_by cmp x (y # ys) = (if cmp x y \<le> 0 then x # y # ys else y # insert_by cmp x ys)"

definition js_sort :: "('a \<Rightarrow> 'a \<Rightarrow> int) \<Rightarrow> 'a list \<Rightarrow> 'a list" where
  \<comment> \<open>\<^verbatim>\<open>Array.prototype.sort\<close> with a comparator. The language requires the sort to be
      stable; on a consistent comparator every stable sort gives the same array, here
      computed by insertion from the right\<close>
  "js_sort cmp xs = foldr (insert_by cmp) xs []"

definition normalizedLibraries ::
  "json list option \<Rightarrow> string \<Rightarrow> string list \<Rightarrow> exn + entry list" where
  \<comment> \<open>\<^verbatim>\<open>libraryItems\<close> is \<^verbatim>\<open>null\<close> or an array, as its type has it; the entries are any
      values, as the code reads them through \<^verbatim>\<open>any\<close>. \<open>Inl\<close>: the computation throws\<close>
  "normalizedLibraries libraryItems libraryQuery starredLibraryIds =
     (case libraryItems of
        None \<Rightarrow> Inr []
      | Some its \<Rightarrow>
          (case derive_entries starredLibraryIds its 0 of
             Inl e \<Rightarrow> Inl e
           | Inr items \<Rightarrow>
               (let q = toLowerCase (trim libraryQuery);
                    filtered = (if q \<noteq> [] then filter (\<lambda>i. includes_str (haystack i) q) items
                                else items)
                in Inr (js_sort star_cmp filtered))))"

section \<open>The component state and its surroundings\<close>

text \<open>
  \<open>session\<close> holds the addressing parameters, fixed for a page view. \<open>platform\<close> holds
  what the browser and the canvas widget decide: the two URI coding functions
  (\<open>decodeURIComponent\<close> gives \<open>None\<close> when it throws) and the inputs on which the canvas
  rejects \<^verbatim>\<open>updateScene\<close>.
\<close>

record session =
  projectId :: "string option"
  boardId :: string
  apiBase :: string

record platform =
  encodeURIComponent :: "string \<Rightarrow> string"
  decodeURIComponent :: "string \<Rightarrow> string option"
  updateSceneThrows :: "json \<Rightarrow> bool"

record timer =
  timer_id :: nat
  due :: nat
  elements :: json
  appState :: json
  files :: json

record request =
  url :: string
  http_method :: string
  credentials :: string
  headers :: "(string \<times> string) list"
  body :: json

text \<open>
  \<open>board\<close> is the state of one mounted \<^verbatim>\<open>CanvasRoot\<close>: its \<^verbatim>\<open>useState\<close> cells, its two
  refs (\<open>excalidrawRef\<close> records whether the ref holds the canvas handle), and the parts
  of the browser it acts on: a clock in milliseconds with the pending timeouts, the log of
  \<^verbatim>\<open>fetch\<close> calls with method POST, the log of \<^verbatim>\<open>updateScene\<close> calls, local storage (a
  stored text is identified with the JSON value it encodes; \<open>storageWritable\<close> is false
  when \<^verbatim>\<open>setItem\<close> throws) and \<^verbatim>\<open>document.cookie\<close> (\<open>None\<close> when reading it throws).
  Every effect and every state updater runs once per trigger, as in a production build.
\<close>

record board =
  viewModeEnabled :: bool
  initialData :: "json option"
  lastUpdated :: "string option"
  isSaving :: bool
  starredLibraryIds :: "string list"
  excalidrawReady :: bool
  saveTimer :: "nat option"
  excalidrawRef :: bool
  clock :: nat
  nextTimerId :: nat
  timers :: "timer list"
  fetches :: "request list"
  sceneCalls :: "json list"
  localStorage :: "string \<rightharpoonup> json"
  storageWritable :: bool
  cookie :: "string option"

definition mount :: "bool \<Rightarrow> (string \<rightharpoonup> json) \<Rightarrow> bool \<Rightarrow> string option \<Rightarrow> board" where
  \<comment> \<open>the initial values of the state cells and refs; the first argument is
      \<^verbatim>\<open>modeParam === "view"\<close>\<close>
  "mount viewParam store writable ck =
     \<lparr>viewModeEnabled = viewParam, initialData = None, lastUpdated = None, isSaving = False,
      starredLibraryIds = [], excalidrawReady = False, saveTimer = None,
      excalidrawRef = False, clock = 0, nextTimerId = 1, timers = [], fetches = [],
      sceneCalls = [], localStorage = store, storageWritable = writable, cookie = ck\<rparr>"

section \<open>Curation store\<close>

definition libraryMetaStorageKey :: string where
  "libraryMetaStorageKey = ''chirpulBoard:librariesMeta:v1''"

definition setItem :: "string \<Rightarrow> json \<Rightarrow> board \<Rightarrow> exn option \<times> board" where
  \<comment> \<open>\<^verbatim>\<open>window.localStorage.setItem\<close>: the exception thrown, if any, and the state after\<close>
  "setItem k v s =
     (if storageWritable s then (None, s\<lparr>localStorage := (localStorage s)(k \<mapsto> v)\<rparr>)
      else (Some StorageError, s))"

definition toggleStar :: "string \<Rightarrow> board \<Rightarrow> board" where
  \<comment> \<open>the stored value is what \<^verbatim>\<open>JSON.stringify({ starredIds: next })\<close> encodes\<close>
  "toggleStar x s =
     (let prev = starredLibraryIds s;
          exists = (x \<in> set prev);
          next = (if exists then filter (\<lambda>y. y \<noteq> x) prev else prev @ [x]);
          s1 = snd (setItem libraryMetaStorageKey
                      (JObj [(''starredIds'', JArr (map JStr next))]) s)
      in s1\<lparr>starredLibraryIds := next\<rparr>)"

section \<open>Bootstrap loader and scene reconciler\<close>

datatype fetch_result =
    Rejected
  | Responded bool "json option"

fun typeof_object :: "json option \<Rightarrow> bool" where
  \<comment> \<open>\<^verbatim>\<open>typeof v === "object"\<close>\<close>
  "typeof_object (Some JNull) = True"
| "typeof_object (Some (JArr xs)) = True"
| "typeof_object (Some (JObj kvs)) = True"
| "typeof_object v = False"

definition updateScene :: "platform \<Rightarrow> json \<Rightarrow> board \<Rightarrow> exn option \<times> board" where
  \<comment> \<open>the canvas command: the call is logged whether or not the canvas rejects it\<close>
  "updateScene pf d s =
     ((if updateSceneThrows pf d then Some CanvasError else None),
      s\<lparr>sceneCalls := sceneCalls s @ [d]\<rparr>)"

definition scene_effect :: "platform \<Rightarrow> board \<Rightarrow> board" where
  \<comment> \<open>the effect with dependencies \<^verbatim>\<open>[initialData, excalidrawReady]\<close>\<close>
  "scene_effect pf s =
     (case initialData s of
        None \<Rightarrow> s
      | Some d \<Rightarrow>
          if \<not> truthy (Some d) then s
          else if \<not> excalidrawReady s then s
          else if \<not> excalidrawRef s then s
          else snd (updateScene pf d s))"

definition bootstrap_settled ::
  "platform \<Rightarrow> bool \<Rightarrow> bool \<Rightarrow> fetch_result \<Rightarrow> board \<Rightarrow> board" where
  \<comment> \<open>the continuation of the bootstrap \<^verbatim>\<open>fetch\<close>. \<open>c1\<close> and \<open>c2\<close> are the value of
      \<^verbatim>\<open>cancelled\<close> when the response and when its body arrive. \<open>Responded ok b\<close> is a
      response with \<^verbatim>\<open>res.ok = ok\<close> whose \<^verbatim>\<open>res.json()\<close> gives \<open>b\<close> (\<open>None\<close>: it rejects).
      When \<^verbatim>\<open>String(json.updatedAt)\<close> throws, the \<^verbatim>\<open>catch\<close> keeps what was set before.
      \<^verbatim>\<open>setInitialData\<close> stores a fresh object, so the scene effect runs after it\<close>
  "bootstrap_settled pf c1 c2 r s =
     (case r of
        Rejected \<Rightarrow> s
      | Responded ok b \<Rightarrow>
          if c1 then s
          else if \<not> ok then s
          else
            (let json = (case b of None \<Rightarrow> Some JNull | Some j \<Rightarrow> Some j)
             in if c2 then s
                else
                  (let dat = opt_prop json ''data'';
                       usedRemote = (truthy dat \<and> typeof_object dat);
                       s1 = (if usedRemote then s\<lparr>initialData := dat\<rparr> else s);
                       upd = opt_prop json ''updatedAt'';
                       s2 = (case upd of
                               None \<Rightarrow> s1
                             | Some u \<Rightarrow>
                                 if truthy (Some u)
                                 then (case js_String u of
                                         Inl e \<Rightarrow> s1
                                       | Inr t \<Rightarrow> s1\<lparr>lastUpdated := Some t\<rparr>)
                                 else s1)
                   in if usedRemote then scene_effect pf s2 else s2)))"

definition canvas_ready :: "platform \<Rightarrow> board \<Rightarrow> board" where
  \<comment> \<open>the \<^verbatim>\<open>excalidrawAPI\<close> callback: the ref takes the handle, \<^verbatim>\<open>setExcalidrawReady(true)\<close>;
      the scene effect runs when that changes the cell. The callback's push of the library
      to the canvas touches no cell of the state and is left out\<close>
  "canvas_ready pf s =
     (let s1 = s\<lparr>excalidrawRef := True\<rparr>;
          s2 = s1\<lparr>excalidrawReady := True\<rparr>
      in if excalidrawReady s then s2 else scene_effect pf s2)"

section \<open>Autosave pipeline\<close>

definition cookie_value :: "string \<Rightarrow> string" where
  \<comment> \<open>the group \<^verbatim>\<open>([^;]*)\<close>\<close>
  "cookie_value s = takeWhile (\<lambda>c. c \<noteq> CHR '';'') s"

fun match_later :: "string \<Rightarrow> string \<Rightarrow> string option" where
  \<comment> \<open>the leftmost place where \<^verbatim>\<open>; name=\<close> starts\<close>
  "match_later name [] = None"
| "match_later name (c # cs) =
     (if prefix (''; '' @ name @ ''='') (c # cs)
      then Some (cookie_value (drop (length name + 3) (c # cs)))
      else match_later name cs)"

definition cookie_match :: "string \<Rightarrow> string \<Rightarrow> string option" where
  \<comment> \<open>\<^verbatim>\<open>s.match(new RegExp(`(?:^|; )${escaped}=([^;]*)`))\<close>, group 1 of the leftmost match,
      for a \<open>name\<close> that the escaping turns into a literal pattern (letters, digits,
      \<^verbatim>\<open>-\<close> and \<^verbatim>\<open>_\<close>, as the three names read below)\<close>
  "cookie_match name s =
     (if prefix (name @ ''='') s then Some (cookie_value (drop (length name + 1) s))
      else match_later name s)"

definition getCookie :: "platform \<Rightarrow> string option \<Rightarrow> string \<Rightarrow> string option" where
  \<comment> \<open>\<open>None\<close> is \<^verbatim>\<open>null\<close>: no match, or the \<^verbatim>\<open>catch\<close> branch\<close>
  "getCookie pf ck name =
     (case ck of
        None \<Rightarrow> None
      | Some s \<Rightarrow>
          (case cookie_match name s of
             None \<Rightarrow> None
           | Some raw \<Rightarrow> decodeURIComponent pf raw))"

definition js_or :: "string option \<Rightarrow> string option \<Rightarrow> string option" where
  \<comment> \<open>\<^verbatim>\<open>a || b\<close> on values that are a string or \<^verbatim>\<open>null\<close>\<close>
  "js_or a b = (case a of None \<Rightarrow> b | Some v \<Rightarrow> if v \<noteq> [] then a else b)"

definition board_url :: "platform \<Rightarrow> session \<Rightarrow> string \<Rightarrow> string" where
  "board_url pf se p =
     apiBase se @ ''/api/projects/'' @ encodeURIComponent pf p @ ''/boards/'' @
     encodeURIComponent pf (boardId se)"

definition save_headers :: "platform \<Rightarrow> string option \<Rightarrow> (string \<times> string) list" where
  "save_headers pf ck =
     (let headers0 = [(''Content-Type'', ''application/json'')];
          csrfToken = js_or (js_or (getCookie pf ck ''csrfToken'') (getCookie pf ck ''csrf-token''))
                        (getCookie pf ck ''csrf_token'')
      in case csrfToken of
           None \<Rightarrow> headers0
         | Some t \<Rightarrow> if t \<noteq> [] then headers0 @ [(''X-CSRF-Token'', t)] else headers0)"

definition save_request :: "platform \<Rightarrow> session \<Rightarrow> string option \<Rightarrow> string \<Rightarrow> timer \<Rightarrow> request" where
  "save_request pf se ck p t =
     \<lparr>url = board_url pf se p, http_method = ''POST'', credentials = ''include'',
      headers = save_headers pf ck,
      body = JObj [(''elements'', elements t), (''appState'', appState t), (''files'', files t)]\<rparr>"

definition save_ticket :: "platform \<Rightarrow> session \<Rightarrow> timer \<Rightarrow> board \<Rightarrow> board" where
  \<comment> \<open>the callback given to \<^verbatim>\<open>setTimeout\<close>, up to the call of \<^verbatim>\<open>fetch\<close>\<close>
  "save_ticket pf se t s =
     (let s1 = s\<lparr>saveTimer := None\<rparr>
      in case projectId se of
           None \<Rightarrow> s1
         | Some p \<Rightarrow>
             if p = [] then s1
             else
               (let s2 = s1\<lparr>isSaving := True\<rparr>
                in s2\<lparr>fetches := fetches s2 @ [save_request pf se (cookie s2) p t]\<rparr>))"

definition clearTimeout :: "nat \<Rightarrow> board \<Rightarrow> board" where
  "clearTimeout i s = s\<lparr>timers := filter (\<lambda>t. timer_id t \<noteq> i) (timers s)\<rparr>"

definition setTimeout :: "nat \<Rightarrow> json \<Rightarrow> json \<Rightarrow> json \<Rightarrow> board \<Rightarrow> nat \<times> board" where
  \<comment> \<open>registers the save callback, closed over the three arguments, to run \<open>delay\<close> ms from
      now; gives the new timer's id\<close>
  "setTimeout delay els ast fls s =
     (nextTimerId s,
      s\<lparr>timers := timers s @
           [\<lparr>timer_id = nextTimerId s, due = clock s + delay,
             elements = els, appState = ast, files = fls\<rparr>],
        nextTimerId := nextTimerId s + 1\<rparr>)"

definition handleChange :: "json \<Rightarrow> json \<Rightarrow> json \<Rightarrow> board \<Rightarrow> board" where
  "handleChange els ast fls s =
     (if viewModeEnabled s then s
      else
        (let s1 = (case saveTimer s of None \<Rightarrow> s | Some i \<Rightarrow> clearTimeout i s);
             (i, s2) = setTimeout 1000 els ast fls s1
         in s2\<lparr>saveTimer := Some i\<rparr>))"

definition elapse :: "platform \<Rightarrow> session \<Rightarrow> nat \<Rightarrow> board \<Rightarrow> board" where
  \<comment> \<open>\<open>d\<close> ms pass with no other event: the timeouts due by then run, earliest first\<close>
  "elapse pf se d s =
     (let now = clock s + d;
          ready = filter (\<lambda>t. due t \<le> now) (timers s);
          s1 = s\<lparr>clock := now, timers := filter (\<lambda>t. \<not> due t \<le> now) (timers s)\<rparr>
      in foldl (\<lambda>a t. save_ticket pf se t a) s1 (sort_key due ready))"

datatype event =
    Change json json json
  | Elapse nat
  | BootstrapSettled bool bool fetch_result
  | CanvasReady
  | ToggleStar string
  | ToggleViewMode

fun step :: "platform \<Rightarrow> session \<Rightarrow> event \<Rightarrow> board \<Rightarrow> board" where
  "step pf se (Change els ast fls) s = handleChange els ast fls s"
| "step pf se (Elapse d) s = elapse pf se d s"
| "step pf se (BootstrapSettled c1 c2 r) s = bootstrap_settled pf c1 c2 r s"
| "step pf se CanvasReady s = canvas_ready pf s"
| "step pf se (ToggleStar x) s = toggleStar x s"
| "step pf se ToggleViewMode s = s\<lparr>viewModeEnabled := \<not> viewModeEnabled s\<rparr>"

definition run :: "platform \<Rightarrow> session \<Rightarrow> event list \<Rightarrow> board \<Rightarrow> board" where
  "run pf se evs s = foldl (\<lambda>a e. step pf se e a) s evs"

section \<open>The specification's reading of the catalog\<close>

text \<open>
  The definitions of this section follow the words of the specification, not the code:
  the sub-elements of an entry, the sub-elements flagged as textual with non-blank content,
  the label, the id, the entries of a catalog in catalog order, the entries matching a
  query and the starred-first order. The theorems compare them with the functions of the
  code.
\<close>

definition sub_elements :: "json \<Rightarrow> json list" where
  "sub_elements item =
     (case item of
        JObj kvs \<Rightarrow> (case map_of kvs ''elements'' of Some (JArr xs) \<Rightarrow> xs | _ \<Rightarrow> [])
      | _ \<Rightarrow> [])"

definition textual_nonblank :: "json \<Rightarrow> string option" where
  "textual_nonblank el =
     (case el of
        JObj kvs \<Rightarrow>
          (if map_of kvs ''type'' = Some (JStr ''text'')
           then (case map_of kvs ''text'' of
                   Some (JStr t) \<Rightarrow> if trim t \<noteq> [] then Some t else None
                 | _ \<Rightarrow> None)
           else None)
      | _ \<Rightarrow> None)"

definition spec_label :: "json \<Rightarrow> nat \<Rightarrow> string" where
  "spec_label item index =
     (case List.map_filter textual_nonblank (sub_elements item) of
        [] \<Rightarrow> ''Item '' @ show_nat (index + 1)
      | t # _ \<Rightarrow> take 60 t)"

definition printable :: "json \<Rightarrow> bool" where
  \<comment> \<open>\<^verbatim>\<open>String\<close> prints the value: it is not, and does not hold in nested arrays, an object
      with a member named \<^verbatim>\<open>toString\<close>\<close>
  "printable v = (case js_String v of Inl e \<Rightarrow> False | Inr t \<Rightarrow> True)"

definition entry_ok :: "json \<Rightarrow> bool" where
  \<comment> \<open>an entry the catalog can list: it is not \<^verbatim>\<open>null\<close> and its id, if any, can be printed\<close>
  "entry_ok item =
     (item \<noteq> JNull \<and>
      (case opt_prop (Some item) ''id'' of None \<Rightarrow> True | Some v \<Rightarrow> printable v))"

definition spec_id :: "json \<Rightarrow> nat \<Rightarrow> string" where
  \<comment> \<open>the id of an entry: the text of its \<^verbatim>\<open>id\<close> member, or its position in the catalog
      (counted from 0) when it carries none; for an entry that is \<open>entry_ok\<close> the member
      can be printed\<close>
  "spec_id item index =
     (case opt_prop (Some item) ''id'' of
        None \<Rightarrow> show_nat index
      | Some v \<Rightarrow>
          if v = JNull then show_nat index
          else (case js_String v of Inl e \<Rightarrow> [] | Inr t \<Rightarrow> t))"

definition spec_entry :: "string list \<Rightarrow> json \<Rightarrow> nat \<Rightarrow> entry" where
  \<comment> \<open>the entry of the item at position \<open>index\<close>, starred when its id is in the curation
      set\<close>
  "spec_entry st item index =
     \<lparr>entry_id = spec_id item index, label = spec_label item index,
      haystack = toLowerCase (spec_label item index),
      isStarred = (spec_id item index \<in> set st)\<rparr>"

definition spec_entries :: "string list \<Rightarrow> json list \<Rightarrow> entry list" where
  \<comment> \<open>the entries of a catalog, in catalog order\<close>
  "spec_entries st its =
     map (\<lambda>(item, index). spec_entry st item index) (zip its [0..<length its])"

definition matching :: "string \<Rightarrow> entry list \<Rightarrow> entry list" where
  "matching q es = filter (\<lambda>e. includes_str (toLowerCase (label e)) (toLowerCase q)) es"

definition starred_first :: "entry list \<Rightarrow> entry list" where
  "starred_first es = filter isStarred es @ filter (\<lambda>e. \<not> isStarred e) es"

definition first_text :: "json \<Rightarrow> string option" where
  "first_text item =
     (case List.map_filter textual_nonblank (sub_elements item) of [] \<Rightarrow> None | t # _ \<Rightarrow> Some t)"

section \<open>Runs of the controller and the specification's reading of them\<close>

text \<open>
  A burst is a first change notification followed by further ones, each after a gap in
  milliseconds. \<open>pending_ok\<close> says that the timeouts of the browser and the ref
  \<^verbatim>\<open>saveTimer\<close> agree: no timeout is pending and the ref is empty, or one is pending and
  the ref holds its id. \<open>armed n\<close> says that exactly one ticket is pending, due 1000 ms
  from now, carrying the notification \<open>n\<close>.
\<close>

definition pending_ok :: "board \<Rightarrow> bool" where
  "pending_ok s =
     (case timers s of
        [] \<Rightarrow> saveTimer s = None
      | [t] \<Rightarrow> saveTimer s = Some (timer_id t)
      | _ \<Rightarrow> False)"

definition armed :: "json \<times> json \<times> json \<Rightarrow> board \<Rightarrow> bool" where
  "armed n s =
     (case timers s of
        [t] \<Rightarrow> saveTimer s = Some (timer_id t) \<and> due t = clock s + 1000 \<and>
               (elements t, appState t, files t) = n
      | _ \<Rightarrow> False)"

definition notify :: "json \<times> json \<times> json \<Rightarrow> event" where
  "notify n = (case n of (els, ast, fls) \<Rightarrow> Change els ast fls)"

definition burst :: "json \<times> json \<times> json \<Rightarrow> (nat \<times> json \<times> json \<times> json) list \<Rightarrow> event list" where
  "burst n0 rest = notify n0 # concat (map (\<lambda>(d, n). [Elapse d, notify n]) rest)"

definition save_body :: "json \<times> json \<times> json \<Rightarrow> json" where
  "save_body n =
     (case n of (els, ast, fls) \<Rightarrow> JObj [(''elements'', els), (''appState'', ast), (''files'', fls)])"

fun autosave_event :: "event \<Rightarrow> bool" where
  "autosave_event (Change els ast fls) = True"
| "autosave_event (Elapse d) = True"
| "autosave_event ev = False"

text \<open>
  The events that leave the loader and the canvas alone (\<open>quiet\<close>), the events other
  than an answer to the bootstrap read, a bootstrap read that fails (the request is
  rejected, the status is not OK, or the body does not decode), and the answer that
  carries a body \<open>b\<close> with OK status and is not cancelled.
\<close>

fun quiet :: "event \<Rightarrow> bool" where
  "quiet (BootstrapSettled c1 c2 r) = False"
| "quiet CanvasReady = False"
| "quiet ev = True"

fun not_bootstrap :: "event \<Rightarrow> bool" where
  "not_bootstrap (BootstrapSettled c1 c2 r) = False"
| "not_bootstrap ev = True"

fun failed_read :: "fetch_result \<Rightarrow> bool" where
  "failed_read Rejected = True"
| "failed_read (Responded ok b) = (\<not> ok \<or> b = None)"

fun no_document :: "event \<Rightarrow> bool" where
  "no_document (BootstrapSettled c1 c2 r) = failed_read r"
| "no_document ev = True"

definition document_response :: "json \<Rightarrow> event" where
  "document_response b = BootstrapSettled False False (Responded True (Some b))"

text \<open>
  The anti-forgery token in the specification's words: the cookies are read in the order
  of \<open>csrf_cookie_names\<close> and the first value that is there and not empty wins. A cookie
  jar is a list of names and values; \<open>render_jar\<close> is the text \<^verbatim>\<open>document.cookie\<close> gives
  for it, and \<open>named_cookie\<close> is the decoded value of the first cookie of a name.
\<close>

definition csrf_cookie_names :: "string list" where
  "csrf_cookie_names = [''csrfToken'', ''csrf-token'', ''csrf_token'']"

definition first_nonempty :: "string option list \<Rightarrow> string option" where
  "first_nonempty vs =
     (case filter (\<lambda>v. v \<noteq> []) (List.map_filter (\<lambda>v. v) vs) of [] \<Rightarrow> None | t # _ \<Rightarrow> Some t)"

definition token_header :: "string option \<Rightarrow> (string \<times> string) list" where
  "token_header tok =
     (''Content-Type'', ''application/json'') #
     (case tok of None \<Rightarrow> [] | Some t \<Rightarrow> [(''X-CSRF-Token'', t)])"

fun render_jar :: "(string \<times> string) list \<Rightarrow> string" where
  "render_jar [] = []"
| "render_jar [(k, v)] = k @ ''='' @ v"
| "render_jar ((k, v) # p # ps) = k @ ''='' @ v @ ''; '' @ render_jar (p # ps)"

definition jar_ok :: "(string \<times> string) list \<Rightarrow> bool" where
  "jar_ok jar =
     list_all (\<lambda>(k, v). CHR '';'' \<notin> set k \<and> CHR ''='' \<notin> set k \<and> CHR '';'' \<notin> set v) jar"

definition named_cookie :: "platform \<Rightarrow> (string \<times> string) list \<Rightarrow> string \<Rightarrow> string option" where
  "named_cookie pf jar name =
     (case map_of jar name of None \<Rightarrow> None | Some raw \<Rightarrow> decodeURIComponent pf raw)"

section \<open>Sample inputs\<close>

definition text_el :: "string \<Rightarrow> json" where
  "text_el t = JObj [(''type'', JStr ''text''), (''text'', JStr t)]"

definition library_item :: "string \<Rightarrow> string \<Rightarrow> json" where
  "library_item i t = JObj [(''id'', JStr i), (''elements'', JArr [text_el t])]"

definition cat_dog :: "json list" where
  "cat_dog = [library_item ''a'' ''Cat'', library_item ''b'' ''Dog'']"

definition long_text :: string where
  "long_text = replicate 60 (CHR ''a'') @ ''Zebra''"


definition plain_platform :: platform where
  "plain_platform =
     \<lparr>encodeURIComponent = (\<lambda>s. s), decodeURIComponent = Some,
      updateSceneThrows = (\<lambda>d. False)\<rparr>"

definition rejecting_platform :: platform where
  "rejecting_platform =
     \<lparr>encodeURIComponent = (\<lambda>s. s), decodeURIComponent = Some,
      updateSceneThrows = (\<lambda>d. True)\<rparr>"

definition sample_session :: session where
  "sample_session = \<lparr>projectId = Some ''p1'', boardId = ''default'', apiBase = ''https://api''\<rparr>"

definition sample_jar :: "(string \<times> string) list" where
  "sample_jar =
     [(''theme'', ''dark''), (''csrfToken'', []), (''csrf-token'', ''tok''), (''csrf_token'', ''zz'')]"

definition fresh_board :: board where
  "fresh_board = mount False Map.empty True (Some (render_jar sample_jar))"

definition locked_board :: board where
  "locked_board = mount False Map.empty False None"

definition view_board :: board where
  "view_board = mount True Map.empty True None"

definition stroke :: "string \<Rightarrow> json \<times> json \<times> json" where
  "stroke k = (JArr [JStr k], JObj [], JObj [])"

definition sample_document :: json where
  "sample_document = JObj [(''elements'', JArr []), (''appState'', JObj []), (''files'', JObj [])]"

definition sample_body :: json where
  "sample_body = JObj [(''data'', sample_document), (''updatedAt'', JStr ''2024-05-01T10:00:00.000Z'')]"

definition sample_ticket :: timer where
  "sample_ticket =
     \<lparr>timer_id = 1, due = 1000, elements = JArr [], appState = JObj [], files = JObj []\<rparr>"

section \<open>The asset catalog: proofs\<close>

lemma trim_Nil [simp]: "trim [] = []"
  by (simp add: trim_def)

lemma is_text_el_iff: "is_text_el el \<longleftrightarrow> textual_nonblank el \<noteq> None"
  by (cases el) (auto simp: is_text_el_def textual_nonblank_def split: option.splits json.splits)

lemma text_of_textual:
  "textual_nonblank el = Some t \<Longrightarrow> opt_prop (Some el) ''text'' = Some (JStr t) \<and> t \<noteq> []"
  by (cases el) (auto simp: textual_nonblank_def split: option.splits json.splits if_splits)

lemma find_text_el:
  "(case find is_text_el xs of None \<Rightarrow> None | Some el \<Rightarrow> textual_nonblank el) =
     (case List.map_filter textual_nonblank xs of [] \<Rightarrow> None | t # _ \<Rightarrow> Some t)"
proof (induction xs)
  case Nil
  show ?case by simp
next
  case (Cons a xs)
  show ?case
  proof (cases "textual_nonblank a")
    case None
    then have "\<not> is_text_el a" by (simp add: is_text_el_iff)
    with None Cons show ?thesis by simp
  next
    case (Some t)
    then have "is_text_el a" by (simp add: is_text_el_iff)
    with Some show ?thesis by simp
  qed
qed

lemma label_of_array:
  "(case opt_prop (find is_text_el xs) ''text'' of
      None \<Rightarrow> Inr None
    | Some txt \<Rightarrow>
        if truthy (Some txt)
        then (case js_String txt of Inl e \<Rightarrow> Inl e | Inr t \<Rightarrow> Inr (Some (take 60 t)))
        else Inr None) =
   (case List.map_filter textual_nonblank xs of [] \<Rightarrow> Inr None | t # _ \<Rightarrow> (Inr (Some (take 60 t)) :: exn + string option))"
proof (cases "find is_text_el xs")
  case None
  with find_text_el [of xs] show ?thesis by (simp split: list.splits)
next
  case (Some el)
  then have "is_text_el el" by (auto simp: find_Some_iff)
  then have "textual_nonblank el \<noteq> None" by (simp add: is_text_el_iff)
  with Some find_text_el [of xs] obtain t ts where
    t: "List.map_filter textual_nonblank xs = t # ts" "textual_nonblank el = Some t"
    by (auto split: list.splits)
  from text_of_textual [OF t(2)] Some t(1) show ?thesis by simp
qed

lemma derive_label_spec: "derive_label item index = spec_label item index"
proof (cases item)
  case (JObj kvs)
  show ?thesis
  proof (cases "map_of kvs ''elements''")
    case None
    with JObj show ?thesis
      by (simp add: derive_label_def label_try_def spec_label_def sub_elements_def placeholder_def)
  next
    case (Some v)
    with JObj show ?thesis
      by (cases v)
         (simp_all add: derive_label_def label_try_def spec_label_def sub_elements_def placeholder_def
            label_of_array split: list.splits)
  qed
qed (simp_all add: derive_label_def label_try_def spec_label_def sub_elements_def placeholder_def)

lemma insert_by_starred:
  "isStarred x \<Longrightarrow> insert_by star_cmp x ys = x # ys"
  by (cases ys) (simp_all add: star_cmp_def)

lemma insert_by_unstarred:
  "\<not> isStarred x \<Longrightarrow> list_all isStarred as \<Longrightarrow> list_all (\<lambda>e. \<not> isStarred e) bs \<Longrightarrow>
   insert_by star_cmp x (as @ bs) = as @ x # bs"
proof (induction as)
  case Nil
  then show ?case by (cases bs) (simp_all add: star_cmp_def)
next
  case (Cons a as)
  then show ?case by (simp add: star_cmp_def)
qed

lemma js_sort_star_cmp:
  "js_sort star_cmp xs = filter isStarred xs @ filter (\<lambda>e. \<not> isStarred e) xs"
proof (induction xs)
  case Nil
  show ?case by (simp add: js_sort_def)
next
  case (Cons x xs)
  have step: "js_sort star_cmp (x # xs) = insert_by star_cmp x (js_sort star_cmp xs)"
    by (simp add: js_sort_def)
  show ?case
  proof (cases "isStarred x")
    case True
    with step Cons show ?thesis by (simp add: insert_by_starred)
  next
    case False
    have "insert_by star_cmp x (filter isStarred xs @ filter (\<lambda>e. \<not> isStarred e) xs) =
          filter isStarred xs @ x # filter (\<lambda>e. \<not> isStarred e) xs"
      by (rule insert_by_unstarred [OF False]) (simp_all add: list_all_iff)
    with step Cons False show ?thesis by simp
  qed
qed

lemma includes_str_Nil [simp]: "includes_str h [] = True"
  by (cases h) simp_all

lemma derive_entry_fields:
  "derive_entry st item index = Inr en \<Longrightarrow>
   label en = spec_label item index \<and> haystack en = toLowerCase (label en) \<and>
   isStarred en = (entry_id en \<in> set st)"
  by (auto simp: derive_entry_def Let_def derive_label_spec split: sum.splits)

lemma derive_entries_nth:
  "derive_entries st its k = Inr es \<Longrightarrow>
   length es = length its \<and> (\<forall>i < length its. derive_entry st (its ! i) (k + i) = Inr (es ! i))"
proof (induction its arbitrary: k es)
  case Nil
  then show ?case by simp
next
  case (Cons x xs)
  from Cons.prems obtain en ens where
    en: "derive_entry st x k = Inr en" and ens: "derive_entries st xs (Suc k) = Inr ens"
    and es: "es = en # ens"
    by (auto split: sum.splits)
  from Cons.IH [OF ens] have len: "length ens = length xs"
    and nth: "\<And>i. i < length xs \<Longrightarrow> derive_entry st (xs ! i) (Suc k + i) = Inr (ens ! i)"
    by simp_all
  show ?case
  proof (intro conjI allI impI)
    show "length es = length (x # xs)" using es len by simp
  next
    fix i assume "i < length (x # xs)"
    then show "derive_entry st ((x # xs) ! i) (k + i) = Inr (es ! i)"
      using en es nth by (cases i) simp_all
  qed
qed

lemma derive_entries_haystack:
  "derive_entries st its k = Inr es \<Longrightarrow> e \<in> set es \<Longrightarrow> haystack e = toLowerCase (label e)"
proof -
  assume d: "derive_entries st its k = Inr es" and e: "e \<in> set es"
  from e obtain i where i: "i < length es" "es ! i = e" by (auto simp: in_set_conv_nth)
  with derive_entries_nth [OF d] have "derive_entry st (its ! i) (k + i) = Inr e" by simp
  then show ?thesis by (simp add: derive_entry_fields)
qed



lemma view_general:
  assumes d: "derive_entries st its 0 = Inr es"
  shows "normalizedLibraries (Some its) query st = Inr (starred_first (matching (trim query) es))"
proof -
  let ?q = "toLowerCase (trim query)"
  have same: "filter (\<lambda>i. includes_str (haystack i) ?q) es = matching (trim query) es"
    unfolding matching_def
    by (rule filter_cong) (simp_all add: derive_entries_haystack [OF d])
  have empty: "?q = [] \<Longrightarrow> matching (trim query) es = es"
    by (simp add: matching_def)
  show ?thesis
    using d same empty
    by (simp add: normalizedLibraries_def Let_def js_sort_star_cmp starred_first_def)
qed

lemma derive_id_spec: "entry_ok x \<Longrightarrow> derive_id x k = Inr (spec_id x k)"
  by (cases x)
     (auto simp: entry_ok_def derive_id_def spec_id_def printable_def
        split: option.splits json.splits sum.splits)

lemma derive_entry_spec: "entry_ok x \<Longrightarrow> derive_entry st x k = Inr (spec_entry st x k)"
  by (simp add: derive_entry_def Let_def derive_id_spec derive_label_spec spec_entry_def)

lemma derive_entries_from:
  "list_all entry_ok its \<Longrightarrow>
   derive_entries st its k =
     Inr (map (\<lambda>(item, index). spec_entry st item index) (zip its [k..<k + length its]))"
proof (induction its arbitrary: k)
  case Nil
  show ?case by simp
next
  case (Cons x xs)
  from Cons.prems have x: "entry_ok x" and xs: "list_all entry_ok xs" by simp_all
  have "k < k + length (x # xs)" by simp
  then have "[k..<k + length (x # xs)] = k # [Suc k..<k + length (x # xs)]"
    by (rule upt_conv_Cons)
  then have "[k..<k + length (x # xs)] = k # [Suc k..<Suc k + length xs]"
    by simp
  with Cons.IH [OF xs, of "Suc k"] derive_entry_spec [OF x, of st k] show ?case by simp
qed

lemma derive_entries_spec:
  "list_all entry_ok its \<Longrightarrow> derive_entries st its 0 = Inr (spec_entries st its)"
  using derive_entries_from [of its st 0] by (simp add: spec_entries_def)


lemma cat_dog_unfiltered:
  "normalizedLibraries (Some cat_dog) [] [''b''] =
     Inr [\<lparr>entry_id = ''b'', label = ''Dog'', haystack = ''dog'', isStarred = True\<rparr>,
          \<lparr>entry_id = ''a'', label = ''Cat'', haystack = ''cat'', isStarred = False\<rparr>]"
  by code_simp

lemma cat_dog_at:
  "normalizedLibraries (Some cat_dog) ''at'' [''b''] =
     Inr [\<lparr>entry_id = ''a'', label = ''Cat'', haystack = ''cat'', isStarred = False\<rparr>]"
  by code_simp

text \<open>
  Claim C4, as amended. For every catalog whose entries can be listed (none is \<^verbatim>\<open>null\<close>,
  every id can be printed), every curation set and every query, the presentation view is:
  of the entries of the catalog in catalog order (\<open>spec_entries\<close>: each with its id, its
  label, and starred exactly when its id is in the curation set), those whose lower-case
  label contains the lower-case \<^emph>\<open>trimmed\<close> query, the starred ones first, each group in
  catalog order. No catalog gives the empty view.
  For the catalog of a (label Cat) and b (label Dog) with b starred, the empty query gives
  b, a and the query at gives a only.
\<close>

theorem presentation_view:
  "(list_all entry_ok its \<longrightarrow>
      normalizedLibraries (Some its) query st =
        Inr (starred_first (matching (trim query) (spec_entries st its)))) \<and>
   normalizedLibraries None query st = Inr [] \<and>
   normalizedLibraries (Some cat_dog) [] [''b''] =
     Inr [\<lparr>entry_id = ''b'', label = ''Dog'', haystack = ''dog'', isStarred = True\<rparr>,
          \<lparr>entry_id = ''a'', label = ''Cat'', haystack = ''cat'', isStarred = False\<rparr>] \<and>
   normalizedLibraries (Some cat_dog) ''at'' [''b''] =
     Inr [\<lparr>entry_id = ''a'', label = ''Cat'', haystack = ''cat'', isStarred = False\<rparr>]"
proof (intro conjI impI)
  assume "list_all entry_ok its"
  then have "derive_entries st its 0 = Inr (spec_entries st its)"
    by (rule derive_entries_spec)
  then show "normalizedLibraries (Some its) query st =
        Inr (starred_first (matching (trim query) (spec_entries st its)))"
    by (rule view_general)
next
  show "normalizedLibraries None query st = Inr []"
    by (simp add: normalizedLibraries_def)
qed (rule cat_dog_unfiltered cat_dog_at)+

text \<open>
  The general part of C4 at the catalog of a and b with b starred and the query
  \<open>'' AT ''\<close>: the entries in catalog order are a, not starred, and b, starred.
\<close>

theorem presentation_view_witness:
  "list_all entry_ok cat_dog \<and>
   spec_entries [''b''] cat_dog =
     [\<lparr>entry_id = ''a'', label = ''Cat'', haystack = ''cat'', isStarred = False\<rparr>,
      \<lparr>entry_id = ''b'', label = ''Dog'', haystack = ''dog'', isStarred = True\<rparr>] \<and>
   normalizedLibraries (Some cat_dog) '' AT '' [''b''] =
     Inr (starred_first (matching (trim '' AT '') (spec_entries [''b''] cat_dog)))"
proof -
  have ok: "list_all entry_ok cat_dog" by code_simp
  have es: "spec_entries [''b''] cat_dog =
     [\<lparr>entry_id = ''a'', label = ''Cat'', haystack = ''cat'', isStarred = False\<rparr>,
      \<lparr>entry_id = ''b'', label = ''Dog'', haystack = ''dog'', isStarred = True\<rparr>]"
    by code_simp
  from presentation_view [of cat_dog "'' AT ''" "[''b'']"] ok
  have "normalizedLibraries (Some cat_dog) '' AT '' [''b''] =
     Inr (starred_first (matching (trim '' AT '') (spec_entries [''b''] cat_dog)))"
    by blast
  with ok es show ?thesis by blast
qed

text \<open>
  Claim C4 as stated speaks of the query itself. With the query \<open>'' at''\<close> the view holds
  the entry labelled Cat, whose lower-case label does not contain that query: the code
  matches the trimmed query \<open>''at''\<close>.
\<close>

theorem untrimmed_query_counterexample:
  "normalizedLibraries (Some [library_item ''a'' ''Cat'']) '' at'' [] =
     Inr [\<lparr>entry_id = ''a'', label = ''Cat'', haystack = ''cat'', isStarred = False\<rparr>] \<and>
   \<not> includes_str (toLowerCase ''Cat'') (toLowerCase '' at'')"
  by code_simp





lemma trim_all_space: "\<forall>c \<in> set s. is_space c \<Longrightarrow> trim s = []"
proof -
  assume "\<forall>c \<in> set s. is_space c"
  then have e: "dropWhile is_space s = []" by simp
  show ?thesis unfolding trim_def e by simp
qed

lemma toLowerCase_take: "toLowerCase (take n s) = take n (toLowerCase s)"
  by (simp add: toLowerCase_def take_map)

text \<open>
  Claim C10. The filter sees the label after truncation and lower-casing: an entry whose
  first textual sub-element has more than 60 characters has the first 60 of them as its
  label, and it is not in the view when the trimmed lower-case query occurs in the
  lower-case text but not within its first 60 characters. A query of white space only
  gives the view of the empty query.
\<close>

theorem filter_on_truncated_label:
  "(i < length its \<and> derive_entries st its 0 = Inr es \<and>
    normalizedLibraries (Some its) query st = Inr view \<and>
    first_text (its ! i) = Some t \<and> 60 < length t \<and>
    toLowerCase (trim query) \<noteq> [] \<and>
    includes_str (toLowerCase t) (toLowerCase (trim query)) \<and>
    \<not> includes_str (take 60 (toLowerCase t)) (toLowerCase (trim query))
    \<longrightarrow> label (es ! i) = take 60 t \<and> es ! i \<notin> set view) \<and>
   ((\<forall>c \<in> set query. is_space c) \<longrightarrow>
      normalizedLibraries lib query st = normalizedLibraries lib [] st)"
proof (intro conjI impI)
  assume a: "i < length its \<and> derive_entries st its 0 = Inr es \<and>
    normalizedLibraries (Some its) query st = Inr view \<and>
    first_text (its ! i) = Some t \<and> 60 < length t \<and>
    toLowerCase (trim query) \<noteq> [] \<and>
    includes_str (toLowerCase t) (toLowerCase (trim query)) \<and>
    \<not> includes_str (take 60 (toLowerCase t)) (toLowerCase (trim query))"
  then have d: "derive_entries st its 0 = Inr es" and i: "i < length its" by simp_all
  from derive_entries_nth [OF d] i have en: "derive_entry st (its ! i) i = Inr (es ! i)"
    by simp
  from a have "spec_label (its ! i) i = take 60 t"
    by (simp add: spec_label_def first_text_def split: list.splits)
  with derive_entry_fields [OF en] show lab: "label (es ! i) = take 60 t" by simp
  from a view_general [OF d, of query]
  have view: "view = starred_first (matching (trim query) es)" by simp
  from lab a have "\<not> includes_str (toLowerCase (label (es ! i))) (toLowerCase (trim query))"
    by (simp add: toLowerCase_take)
  then show "es ! i \<notin> set view"
    by (auto simp: view starred_first_def matching_def)
next
  assume "\<forall>c \<in> set query. is_space c"
  then have "trim query = []" by (rule trim_all_space)
  then show "normalizedLibraries lib query st = normalizedLibraries lib [] st"
    by (simp add: normalizedLibraries_def toLowerCase_def split: option.splits sum.splits)
qed

text \<open>
  C10 at an entry whose text is sixty letters a followed by Zebra, with the query
  \<open>''zebra ''\<close>, and at the query of two spaces.
\<close>

theorem filter_on_truncated_label_witness:
  "derive_entries [] [library_item ''x'' long_text] 0 =
     Inr [\<lparr>entry_id = ''x'', label = take 60 long_text,
           haystack = toLowerCase (take 60 long_text), isStarred = False\<rparr>] \<and>
   normalizedLibraries (Some [library_item ''x'' long_text]) ''zebra '' [] = Inr [] \<and>
   first_text ([library_item ''x'' long_text] ! 0) = Some long_text \<and> 60 < length long_text \<and>
   toLowerCase (trim ''zebra '') \<noteq> [] \<and>
   includes_str (toLowerCase long_text) (toLowerCase (trim ''zebra '')) \<and>
   \<not> includes_str (take 60 (toLowerCase long_text)) (toLowerCase (trim ''zebra '')) \<and>
   \<lparr>entry_id = ''x'', label = take 60 long_text,
     haystack = toLowerCase (take 60 long_text), isStarred = False\<rparr> \<notin> set [] \<and>
   is_space (CHR '' '') \<and>
   normalizedLibraries (Some cat_dog) ''  '' [''b''] = normalizedLibraries (Some cat_dog) [] [''b'']"
proof -
  let ?e = "\<lparr>entry_id = ''x'', label = take 60 long_text,
             haystack = toLowerCase (take 60 long_text), isStarred = False\<rparr>"
  have 0: "derive_entries [] [library_item ''x'' long_text] 0 = Inr [?e]" by code_simp
  have 1: "first_text ([library_item ''x'' long_text] ! 0) = Some long_text"
    by code_simp
  have 2: "60 < length long_text" by code_simp
  have 3: "includes_str (toLowerCase long_text) (toLowerCase (trim ''zebra ''))" by code_simp
  have 4: "\<not> includes_str (take 60 (toLowerCase long_text)) (toLowerCase (trim ''zebra ''))"
    by code_simp
  have 5: "normalizedLibraries (Some [library_item ''x'' long_text]) ''zebra '' [] = Inr []"
    by code_simp
  have 6: "is_space (CHR '' '')" by code_simp
  then have 7: "\<forall>c \<in> set ''  ''. is_space c" by simp
  have 8: "toLowerCase (trim ''zebra '') \<noteq> []" by code_simp
  from filter_on_truncated_label
         [where i = 0 and its = "[library_item ''x'' long_text]" and st = "[]" and es = "[?e]"
            and query = "''zebra ''" and view = "[]" and t = long_text]
       0 1 2 3 4 5 8
  have 9: "?e \<notin> set []" by simp
  from filter_on_truncated_label [where query = "''  ''" and lib = "Some cat_dog" and st = "[''b'']"] 7
  have "normalizedLibraries (Some cat_dog) ''  '' [''b''] = normalizedLibraries (Some cat_dog) [] [''b'']"
    by blast
  with 0 1 2 3 4 5 6 8 9 show ?thesis by simp
qed

section \<open>Autosave pipeline: proofs\<close>

lemma run_Nil [simp]: "run pf se [] s = s"
  by (simp add: run_def)

lemma run_Cons [simp]: "run pf se (ev # evs) s = run pf se evs (step pf se ev s)"
  by (simp add: run_def)

lemma run_append: "run pf se (xs @ ys) s = run pf se ys (run pf se xs s)"
  by (simp add: run_def)

lemma save_ticket_frame:
  "timers (save_ticket pf se t s) = timers s"
  "clock (save_ticket pf se t s) = clock s"
  "viewModeEnabled (save_ticket pf se t s) = viewModeEnabled s"
  "cookie (save_ticket pf se t s) = cookie s"
  "saveTimer (save_ticket pf se t s) = None"
  "initialData (save_ticket pf se t s) = initialData s"
  "excalidrawReady (save_ticket pf se t s) = excalidrawReady s"
  "excalidrawRef (save_ticket pf se t s) = excalidrawRef s"
  "sceneCalls (save_ticket pf se t s) = sceneCalls s"
  "lastUpdated (save_ticket pf se t s) = lastUpdated s"
  by (simp_all add: save_ticket_def Let_def split: option.splits)

lemma save_ticket_fetches:
  "projectId se = Some p \<Longrightarrow> p \<noteq> [] \<Longrightarrow>
   fetches (save_ticket pf se t s) = fetches s @ [save_request pf se (cookie s) p t]"
  by (simp add: save_ticket_def Let_def)

lemma elapse_idle:
  "\<forall>t \<in> set (timers s). clock s + d < due t \<Longrightarrow> elapse pf se d s = s\<lparr>clock := clock s + d\<rparr>"
proof -
  assume a: "\<forall>t \<in> set (timers s). clock s + d < due t"
  then have 1: "filter (\<lambda>t. due t \<le> clock s + d) (timers s) = []"
    by (auto simp: filter_empty_conv)
  from a have 2: "filter (\<lambda>t. \<not> due t \<le> clock s + d) (timers s) = timers s"
    by (auto simp: filter_id_conv)
  show ?thesis by (simp add: elapse_def Let_def 1 2)
qed

lemma elapse_no_timers: "timers s = [] \<Longrightarrow> elapse pf se d s = s\<lparr>clock := clock s + d\<rparr>"
  by (rule elapse_idle) simp

lemma elapse_fire:
  "timers s = [t] \<Longrightarrow> due t \<le> clock s + d \<Longrightarrow>
   elapse pf se d s = save_ticket pf se t (s\<lparr>clock := clock s + d, timers := []\<rparr>)"
  by (simp add: elapse_def Let_def)

lemma handleChange_armed:
  assumes "\<not> viewModeEnabled s" "pending_ok s"
  shows "armed (els, ast, fls) (handleChange els ast fls s)"
    and "fetches (handleChange els ast fls s) = fetches s"
    and "viewModeEnabled (handleChange els ast fls s) = viewModeEnabled s"
    and "cookie (handleChange els ast fls s) = cookie s"
proof -
  from assms(2) consider "timers s = []" "saveTimer s = None"
    | t where "timers s = [t]" "saveTimer s = Some (timer_id t)"
    by (auto simp: pending_ok_def split: list.splits)
  then have "armed (els, ast, fls) (handleChange els ast fls s) \<and>
    fetches (handleChange els ast fls s) = fetches s \<and>
    viewModeEnabled (handleChange els ast fls s) = viewModeEnabled s \<and>
    cookie (handleChange els ast fls s) = cookie s"
    using assms(1)
    by cases (simp_all add: handleChange_def setTimeout_def clearTimeout_def armed_def)
  then show "armed (els, ast, fls) (handleChange els ast fls s)"
    and "fetches (handleChange els ast fls s) = fetches s"
    and "viewModeEnabled (handleChange els ast fls s) = viewModeEnabled s"
    and "cookie (handleChange els ast fls s) = cookie s"
    by simp_all
qed

lemma armed_elapse_short:
  assumes "armed n s" "d < 1000"
  shows "elapse pf se d s = s\<lparr>clock := clock s + d\<rparr>" and "pending_ok (elapse pf se d s)"
proof -
  from assms(1) obtain t where t: "timers s = [t]" "saveTimer s = Some (timer_id t)"
    "due t = clock s + 1000"
    by (auto simp: armed_def split: list.splits)
  with assms(2) show e: "elapse pf se d s = s\<lparr>clock := clock s + d\<rparr>"
    by (intro elapse_idle) simp
  show "pending_ok (elapse pf se d s)"
    unfolding e using t by (simp add: pending_ok_def)
qed

text \<open>
  At most one ticket is outstanding: \<open>pending_ok\<close> holds when the board is mounted and
  every event keeps it, so it holds in every state a run reaches.
\<close>

lemma pending_ok_mount: "pending_ok (mount v store w ck)"
  by (simp add: pending_ok_def mount_def)

lemma armed_pending_ok: "armed n s \<Longrightarrow> pending_ok s"
  by (auto simp: armed_def pending_ok_def split: list.splits)

lemma pending_ok_elapse: "pending_ok s \<Longrightarrow> pending_ok (elapse pf se d s)"
proof -
  assume "pending_ok s"
  then consider "timers s = []" "saveTimer s = None"
    | t where "timers s = [t]" "saveTimer s = Some (timer_id t)"
    by (auto simp: pending_ok_def split: list.splits)
  then show ?thesis
  proof cases
    case 1
    then show ?thesis by (simp add: elapse_no_timers pending_ok_def)
  next
    case 2
    show ?thesis
    proof (cases "due t \<le> clock s + d")
      case True
      from elapse_fire [OF 2(1) True, of pf se] show ?thesis
        by (simp add: pending_ok_def save_ticket_frame)
    next
      case False
      with 2 have "elapse pf se d s = s\<lparr>clock := clock s + d\<rparr>"
        by (intro elapse_idle) simp
      with 2 show ?thesis by (simp add: pending_ok_def)
    qed
  qed
qed

lemma pending_ok_same:
  "timers s' = timers s \<Longrightarrow> saveTimer s' = saveTimer s \<Longrightarrow> pending_ok s' = pending_ok s"
  by (simp add: pending_ok_def split: list.splits)

lemma scene_effect_timers:
  "timers (scene_effect pf s) = timers s \<and> saveTimer (scene_effect pf s) = saveTimer s"
  by (simp add: scene_effect_def updateScene_def split: option.splits)

lemma bootstrap_settled_timers:
  "timers (bootstrap_settled pf c1 c2 r s) = timers s \<and>
   saveTimer (bootstrap_settled pf c1 c2 r s) = saveTimer s"
  by (cases r)
     (auto simp: bootstrap_settled_def Let_def scene_effect_timers split: option.splits sum.splits)

lemma canvas_ready_timers:
  "timers (canvas_ready pf s) = timers s \<and> saveTimer (canvas_ready pf s) = saveTimer s"
  by (simp add: canvas_ready_def Let_def scene_effect_timers)

lemma toggleStar_timers:
  "timers (toggleStar x s) = timers s \<and> saveTimer (toggleStar x s) = saveTimer s"
  by (simp add: toggleStar_def Let_def setItem_def)

lemma pending_ok_step: "pending_ok s \<Longrightarrow> pending_ok (step pf se ev s)"
proof (cases ev)
  case (Change els ast fls)
  assume ok: "pending_ok s"
  show ?thesis
  proof (cases "viewModeEnabled s")
    case True
    with ok Change show ?thesis by (simp add: handleChange_def)
  next
    case False
    from handleChange_armed(1) [OF False ok, of els ast fls] Change show ?thesis
      by (simp add: armed_pending_ok)
  qed
next
  case (Elapse d)
  assume "pending_ok s"
  with Elapse show ?thesis by (simp add: pending_ok_elapse)
next
  case (BootstrapSettled c1 c2 r)
  assume "pending_ok s"
  with BootstrapSettled show ?thesis
    by (simp add: pending_ok_same [of "bootstrap_settled pf c1 c2 r s" s] bootstrap_settled_timers)
next
  case CanvasReady
  assume "pending_ok s"
  with CanvasReady show ?thesis
    by (simp add: pending_ok_same [of "canvas_ready pf s" s] canvas_ready_timers)
next
  case (ToggleStar x)
  assume "pending_ok s"
  with ToggleStar show ?thesis
    by (simp add: pending_ok_same [of "toggleStar x s" s] toggleStar_timers)
next
  case ToggleViewMode
  assume "pending_ok s"
  then show ?thesis by (simp add: ToggleViewMode pending_ok_def split: list.splits)
qed

lemma pending_ok_run: "pending_ok s \<Longrightarrow> pending_ok (run pf se evs s)"
  by (induction evs arbitrary: s) (simp_all add: pending_ok_step)

lemma pending_ok_reachable: "pending_ok (run pf se evs (mount v store w ck))"
  by (rule pending_ok_run [OF pending_ok_mount])

lemma burst_snoc: "burst n0 (rest @ [(d, n)]) = burst n0 rest @ [Elapse d, notify n]"
  by (simp add: burst_def)

lemma after_burst:
  assumes "\<not> viewModeEnabled s" "pending_ok s" "\<forall>(d, n) \<in> set rest. d < 1000"
  shows "armed (last (n0 # map snd rest)) (run pf se (burst n0 rest) s) \<and>
         fetches (run pf se (burst n0 rest) s) = fetches s \<and>
         \<not> viewModeEnabled (run pf se (burst n0 rest) s) \<and>
         cookie (run pf se (burst n0 rest) s) = cookie s"
  using assms(3)
proof (induction rest rule: rev_induct)
  case Nil
  obtain els ast fls where n0: "n0 = (els, ast, fls)" by (cases n0) auto
  from handleChange_armed [OF assms(1,2), of els ast fls] assms(1) show ?case
    by (simp add: burst_def notify_def n0)
next
  case (snoc x rest)
  obtain d els ast fls where x: "x = (d, els, ast, fls)" by (cases x) auto
  let ?s = "run pf se (burst n0 rest) s"
  from snoc have IH: "armed (last (n0 # map snd rest)) ?s" "fetches ?s = fetches s"
    "\<not> viewModeEnabled ?s" "cookie ?s = cookie s"
    by simp_all
  from snoc.prems x have d: "d < 1000" by simp
  let ?e = "elapse pf se d ?s"
  from armed_elapse_short [OF IH(1) d, of pf se]
  have e: "?e = ?s\<lparr>clock := clock ?s + d\<rparr>" and ok: "pending_ok ?e" by simp_all
  from e IH have nv: "\<not> viewModeEnabled ?e" and fe: "fetches ?e = fetches s"
    and ce: "cookie ?e = cookie s" by simp_all
  from handleChange_armed [OF nv ok, of els ast fls] fe ce nv
  show ?case
    by (simp add: x burst_snoc run_append notify_def)
qed

text \<open>
  Claim C1. The session is not in view-only mode and has a project identifier. A burst of
  change notifications arrives, each less than 1000 ms after the one before. While the
  burst lasts, and until 1000 ms have passed after its last notification, no write request
  is issued. Once 1000 ms have passed, exactly one is issued: a POST whose body is built
  from the arguments of the last notification; no ticket is left and no request follows.
  After the burst exactly one ticket is pending, that of the last notification: every
  notification has cancelled the ticket scheduled before it.
\<close>

theorem debounce_single_write:
  assumes "\<not> viewModeEnabled s" and "projectId se = Some p" and "p \<noteq> []"
    and "pending_ok s" and "\<forall>(d, n) \<in> set rest. d < 1000"
  shows "armed (last (n0 # map snd rest)) (run pf se (burst n0 rest) s) \<and>
         fetches (run pf se (burst n0 rest) s) = fetches s \<and>
         (q < 1000 \<longrightarrow> fetches (run pf se (burst n0 rest @ [Elapse q]) s) = fetches s) \<and>
         (1000 \<le> q \<longrightarrow>
            (\<exists>r. fetches (run pf se (burst n0 rest @ [Elapse q]) s) = fetches s @ [r] \<and>
                 http_method r = ''POST'' \<and> body r = save_body (last (n0 # map snd rest))) \<and>
            timers (run pf se (burst n0 rest @ [Elapse q]) s) = [] \<and>
            saveTimer (run pf se (burst n0 rest @ [Elapse q]) s) = None \<and>
            fetches (run pf se (burst n0 rest @ [Elapse q, Elapse q']) s) =
              fetches (run pf se (burst n0 rest @ [Elapse q]) s))"
proof -
  let ?n = "last (n0 # map snd rest)"
  let ?s = "run pf se (burst n0 rest) s"
  from after_burst [OF assms(1,4,5), of n0 pf se]
  have a: "armed ?n ?s" and f: "fetches ?s = fetches s" by simp_all
  from a obtain t where t: "timers ?s = [t]" "saveTimer ?s = Some (timer_id t)"
    "due t = clock ?s + 1000" "(elements t, appState t, files t) = ?n"
    by (auto simp: armed_def split: list.splits)
  have short: "fetches (run pf se (burst n0 rest @ [Elapse q]) s) = fetches s" if "q < 1000"
    using armed_elapse_short(1) [OF a that, of pf se] f by (simp add: run_append)
  have long: "(\<exists>r. fetches (run pf se (burst n0 rest @ [Elapse q]) s) = fetches s @ [r] \<and>
                 http_method r = ''POST'' \<and> body r = save_body ?n) \<and>
            timers (run pf se (burst n0 rest @ [Elapse q]) s) = [] \<and>
            saveTimer (run pf se (burst n0 rest @ [Elapse q]) s) = None \<and>
            fetches (run pf se (burst n0 rest @ [Elapse q, Elapse q']) s) =
              fetches (run pf se (burst n0 rest @ [Elapse q]) s)" if q: "1000 \<le> q"
  proof -
    let ?f = "elapse pf se q ?s"
    from t q have due: "due t \<le> clock ?s + q" by simp
    have fire: "?f = save_ticket pf se t (?s\<lparr>clock := clock ?s + q, timers := []\<rparr>)"
      by (rule elapse_fire [OF t(1) due])
    have tm: "timers ?f = []" and st: "saveTimer ?f = None"
      by (simp_all add: fire save_ticket_frame)
    have fs: "fetches ?f = fetches s @ [save_request pf se (cookie ?s) p t]"
      by (simp add: fire save_ticket_fetches [OF assms(2,3)] f)
    have b: "body (save_request pf se (cookie ?s) p t) = save_body ?n"
      "http_method (save_request pf se (cookie ?s) p t) = ''POST''"
      using t(4) [symmetric] by (simp_all add: save_request_def save_body_def)
    have idle: "elapse pf se q' ?f = ?f\<lparr>clock := clock ?f + q'\<rparr>"
      by (rule elapse_idle) (simp add: tm)
    show ?thesis
      using tm st fs b idle by (simp add: run_append)
  qed
  from a f short long show ?thesis by blast
qed

text \<open>
  C1 at three notifications, 500 ms and 999 ms apart, on a freshly mounted board: nothing
  is sent 999 ms after the last one, one request with the third notification at 1000 ms.
\<close>

theorem debounce_single_write_witness:
  "\<not> viewModeEnabled fresh_board \<and> pending_ok fresh_board \<and>
   projectId sample_session = Some ''p1'' \<and>
   armed (stroke ''3'')
     (run plain_platform sample_session
        (burst (stroke ''1'') [(500, stroke ''2''), (999, stroke ''3'')]) fresh_board) \<and>
   (\<exists>r. fetches (run plain_platform sample_session
                    (burst (stroke ''1'') [(500, stroke ''2''), (999, stroke ''3'')] @ [Elapse 1000])
                    fresh_board) = fetches fresh_board @ [r] \<and>
        http_method r = ''POST'' \<and> body r = save_body (stroke ''3'')) \<and>
   fetches (run plain_platform sample_session
              (burst (stroke ''1'') [(500, stroke ''2''), (999, stroke ''3'')] @ [Elapse 999])
              fresh_board) = fetches fresh_board"
proof -
  have h1: "\<not> viewModeEnabled fresh_board" by (simp add: fresh_board_def mount_def)
  have h2: "projectId sample_session = Some ''p1''" by (simp add: sample_session_def)
  have h3: "''p1'' \<noteq> []" by simp
  have h4: "pending_ok fresh_board" by (simp add: pending_ok_def fresh_board_def mount_def)
  have h5: "\<forall>(d, n) \<in> set [(500, stroke ''2''), (999, stroke ''3'')]. d < (1000 :: nat)" by simp
  have l: "last (stroke ''1'' # map snd [(500 :: nat, stroke ''2''), (999, stroke ''3'')]) = stroke ''3''"
    by simp
  from debounce_single_write [OF h1 h2 h3 h4 h5, of "stroke ''1''" plain_platform 1000 0]
       debounce_single_write [OF h1 h2 h3 h4 h5, of "stroke ''1''" plain_platform 999 0]
       h1 h2 h4
  show ?thesis unfolding l by simp
qed

lemma view_only_run:
  "viewModeEnabled s \<Longrightarrow> timers s = [] \<Longrightarrow> list_all autosave_event evs \<Longrightarrow>
   fetches (run pf se evs s) = fetches s \<and> timers (run pf se evs s) = [] \<and>
   viewModeEnabled (run pf se evs s)"
proof (induction evs arbitrary: s)
  case Nil
  then show ?case by simp
next
  case (Cons ev evs)
  from Cons.prems have "autosave_event ev" by simp
  then have "viewModeEnabled (step pf se ev s) \<and> timers (step pf se ev s) = [] \<and>
    fetches (step pf se ev s) = fetches s"
    using Cons.prems(1,2)
    by (cases ev) (simp_all add: handleChange_def elapse_no_timers)
  with Cons.IH [of "step pf se ev s"] Cons.prems(3) show ?case by simp
qed

text \<open>
  Claim C3. In view-only mode a change notification leaves the whole state as it is: no
  request is issued, no ticket is scheduled, and a ticket that is pending stays pending.
  A board in view-only mode without a pending ticket issues no write request, however many
  notifications arrive and however much time passes.
\<close>

theorem view_only_noop:
  assumes "viewModeEnabled s"
  shows "handleChange els ast fls s = s \<and>
         (timers s = [] \<and> list_all autosave_event evs \<longrightarrow>
            fetches (run pf se evs s) = fetches s \<and> timers (run pf se evs s) = [])"
  using assms view_only_run [of s evs pf se] by (simp add: handleChange_def)

text \<open>
  C3 at a board that was switched to view-only mode while a ticket was pending, and at a
  board mounted in view-only mode.
\<close>

theorem view_only_noop_witness:
  "viewModeEnabled (run plain_platform sample_session [Change JNull JNull JNull, ToggleViewMode] fresh_board) \<and>
   length (timers (run plain_platform sample_session [Change JNull JNull JNull, ToggleViewMode] fresh_board)) = 1 \<and>
   handleChange (JArr []) JNull JNull
     (run plain_platform sample_session [Change JNull JNull JNull, ToggleViewMode] fresh_board) =
     run plain_platform sample_session [Change JNull JNull JNull, ToggleViewMode] fresh_board \<and>
   viewModeEnabled view_board \<and> timers view_board = [] \<and>
   list_all autosave_event [Change (JArr []) JNull JNull, Elapse 1000, Change JNull JNull JNull, Elapse 5000] \<and>
   fetches (run plain_platform sample_session
              [Change (JArr []) JNull JNull, Elapse 1000, Change JNull JNull JNull, Elapse 5000]
              view_board) = fetches view_board"
proof -
  let ?s = "run plain_platform sample_session [Change JNull JNull JNull, ToggleViewMode] fresh_board"
  have v: "viewModeEnabled ?s"
    by (simp add: fresh_board_def mount_def handleChange_def setTimeout_def)
  have t: "length (timers ?s) = 1"
    by (simp add: fresh_board_def mount_def handleChange_def setTimeout_def)
  have v2: "viewModeEnabled view_board" "timers view_board = []"
    by (simp_all add: view_board_def mount_def)
  have a: "list_all autosave_event
             [Change (JArr []) JNull JNull, Elapse 1000, Change JNull JNull JNull, Elapse 5000]"
    by simp
  from view_only_noop [OF v, of "JArr []" JNull JNull]
       view_only_noop [OF v2(1), of JNull JNull JNull
         "[Change (JArr []) JNull JNull, Elapse 1000, Change JNull JNull JNull, Elapse 5000]"
         plain_platform sample_session]
       v t v2 a
  show ?thesis by simp
qed

section \<open>Curation store, bootstrap loader and scene reconciler: proofs\<close>

lemma toggleStar_ids:
  "starredLibraryIds (toggleStar x s) =
     (if x \<in> set (starredLibraryIds s) then filter (\<lambda>y. y \<noteq> x) (starredLibraryIds s)
      else starredLibraryIds s @ [x])"
  by (simp add: toggleStar_def Let_def setItem_def)

lemma toggleStar_storage:
  "localStorage (toggleStar x s) =
     (if storageWritable s
      then (localStorage s)(''chirpulBoard:librariesMeta:v1'' \<mapsto>
             JObj [(''starredIds'', JArr (map JStr (starredLibraryIds (toggleStar x s))))])
      else localStorage s)"
  by (simp add: toggleStar_def Let_def setItem_def libraryMetaStorageKey_def)

lemma toggleStar_writable: "storageWritable (toggleStar x s) = storageWritable s"
  by (simp add: toggleStar_def Let_def setItem_def)

lemma toggle_twice_ids:
  "starredLibraryIds (toggleStar x (toggleStar x s)) =
     (if x \<in> set (starredLibraryIds s) then filter (\<lambda>y. y \<noteq> x) (starredLibraryIds s) @ [x]
      else starredLibraryIds s)"
proof (cases "x \<in> set (starredLibraryIds s)")
  case True
  then show ?thesis by (simp add: toggleStar_ids)
next
  case False
  then have "filter (\<lambda>y. y \<noteq> x) (starredLibraryIds s) = starredLibraryIds s"
    by (auto simp: filter_id_conv)
  with False show ?thesis by (simp add: toggleStar_ids)
qed

text \<open>
  Claim C7. Toggling \<open>x\<close> flips the membership of \<open>x\<close> in the curation set and of nothing
  else. In the same step local storage takes, under the key
  \<^verbatim>\<open>chirpulBoard:librariesMeta:v1\<close> and nowhere else, the object whose member
  \<^verbatim>\<open>starredIds\<close> is the array of the ids of the resulting set. Toggling twice gives the
  original set back (the very same array when \<open>x\<close> was not in it) and stores it in the
  same form. When the write fails, storage is as before and the set in memory is changed
  all the same.
\<close>

theorem toggle_curation:
  "(x \<in> set (starredLibraryIds (toggleStar x s)) \<longleftrightarrow> x \<notin> set (starredLibraryIds s)) \<and>
   set (starredLibraryIds (toggleStar x s)) - {x} = set (starredLibraryIds s) - {x} \<and>
   (storageWritable s \<longrightarrow>
      localStorage (toggleStar x s) =
        (localStorage s)(''chirpulBoard:librariesMeta:v1'' \<mapsto>
           JObj [(''starredIds'', JArr (map JStr (starredLibraryIds (toggleStar x s))))])) \<and>
   (\<not> storageWritable s \<longrightarrow> localStorage (toggleStar x s) = localStorage s) \<and>
   set (starredLibraryIds (toggleStar x (toggleStar x s))) = set (starredLibraryIds s) \<and>
   (x \<notin> set (starredLibraryIds s) \<longrightarrow>
      starredLibraryIds (toggleStar x (toggleStar x s)) = starredLibraryIds s) \<and>
   (storageWritable s \<longrightarrow>
      localStorage (toggleStar x (toggleStar x s)) ''chirpulBoard:librariesMeta:v1'' =
        Some (JObj [(''starredIds'',
                     JArr (map JStr (starredLibraryIds (toggleStar x (toggleStar x s)))))]))"
proof (intro conjI impI)
  show "x \<in> set (starredLibraryIds (toggleStar x s)) \<longleftrightarrow> x \<notin> set (starredLibraryIds s)"
    by (simp add: toggleStar_ids)
  show "set (starredLibraryIds (toggleStar x s)) - {x} = set (starredLibraryIds s) - {x}"
    by (auto simp: toggleStar_ids)
  show "set (starredLibraryIds (toggleStar x (toggleStar x s))) = set (starredLibraryIds s)"
    by (auto simp: toggle_twice_ids)
  show "starredLibraryIds (toggleStar x (toggleStar x s)) = starredLibraryIds s"
    if "x \<notin> set (starredLibraryIds s)"
    using that by (simp add: toggle_twice_ids)
  show "localStorage (toggleStar x s) =
        (localStorage s)(''chirpulBoard:librariesMeta:v1'' \<mapsto>
           JObj [(''starredIds'', JArr (map JStr (starredLibraryIds (toggleStar x s))))])"
    if "storageWritable s"
    using that by (simp add: toggleStar_storage)
  show "localStorage (toggleStar x s) = localStorage s" if "\<not> storageWritable s"
    using that by (simp add: toggleStar_storage)
  show "localStorage (toggleStar x (toggleStar x s)) ''chirpulBoard:librariesMeta:v1'' =
        Some (JObj [(''starredIds'',
                     JArr (map JStr (starredLibraryIds (toggleStar x (toggleStar x s)))))])"
    if "storageWritable s"
  proof -
    from that have "storageWritable (toggleStar x s)" by (simp add: toggleStar_writable)
    then show ?thesis by (simp add: toggleStar_storage [of x "toggleStar x s"])
  qed
qed

text \<open>C7 at a board whose storage takes writes and at one whose storage rejects them.\<close>

theorem toggle_curation_witness:
  "storageWritable fresh_board \<and> ''a'' \<notin> set (starredLibraryIds fresh_board) \<and>
   localStorage (toggleStar ''a'' fresh_board) ''chirpulBoard:librariesMeta:v1'' =
     Some (JObj [(''starredIds'', JArr [JStr ''a''])]) \<and>
   starredLibraryIds (toggleStar ''a'' (toggleStar ''a'' fresh_board)) = [] \<and>
   localStorage (toggleStar ''a'' (toggleStar ''a'' fresh_board)) ''chirpulBoard:librariesMeta:v1'' =
     Some (JObj [(''starredIds'', JArr [])]) \<and>
   \<not> storageWritable locked_board \<and>
   localStorage (toggleStar ''a'' locked_board) = localStorage locked_board \<and>
   ''a'' \<in> set (starredLibraryIds (toggleStar ''a'' locked_board))"
proof -
  have w: "storageWritable fresh_board" and e: "starredLibraryIds fresh_board = []"
    by (simp_all add: fresh_board_def mount_def)
  have n: "\<not> storageWritable locked_board" and e': "starredLibraryIds locked_board = []"
    by (simp_all add: locked_board_def mount_def)
  have one: "starredLibraryIds (toggleStar ''a'' fresh_board) = [''a'']"
    by (simp add: toggleStar_ids e)
  from toggle_curation [of "''a''" fresh_board] w e
  have two: "starredLibraryIds (toggleStar ''a'' (toggleStar ''a'' fresh_board)) = []"
    and st: "localStorage (toggleStar ''a'' fresh_board) =
       (localStorage fresh_board)(''chirpulBoard:librariesMeta:v1'' \<mapsto>
          JObj [(''starredIds'', JArr (map JStr (starredLibraryIds (toggleStar ''a'' fresh_board))))])"
    and st2: "localStorage (toggleStar ''a'' (toggleStar ''a'' fresh_board))
                ''chirpulBoard:librariesMeta:v1'' =
              Some (JObj [(''starredIds'',
                 JArr (map JStr (starredLibraryIds (toggleStar ''a'' (toggleStar ''a'' fresh_board)))))])"
    by simp_all
  from toggle_curation [of "''a''" locked_board] n e'
  have l: "localStorage (toggleStar ''a'' locked_board) = localStorage locked_board"
    and m: "''a'' \<in> set (starredLibraryIds (toggleStar ''a'' locked_board))"
    by simp_all
  from st one have st': "localStorage (toggleStar ''a'' fresh_board) ''chirpulBoard:librariesMeta:v1'' =
     Some (JObj [(''starredIds'', JArr [JStr ''a''])])"
    by simp
  from st2 two have st2': "localStorage (toggleStar ''a'' (toggleStar ''a'' fresh_board))
       ''chirpulBoard:librariesMeta:v1'' = Some (JObj [(''starredIds'', JArr [])])"
    by simp
  from w e n two st' st2' l m show ?thesis by simp
qed

lemma fold_save_ticket_frame:
  "initialData (foldl (\<lambda>a t. save_ticket pf se t a) s ts) = initialData s \<and>
   excalidrawReady (foldl (\<lambda>a t. save_ticket pf se t a) s ts) = excalidrawReady s \<and>
   excalidrawRef (foldl (\<lambda>a t. save_ticket pf se t a) s ts) = excalidrawRef s \<and>
   sceneCalls (foldl (\<lambda>a t. save_ticket pf se t a) s ts) = sceneCalls s"
  by (induction ts arbitrary: s) (simp_all add: save_ticket_frame)

lemma elapse_frame:
  "initialData (elapse pf se d s) = initialData s \<and>
   excalidrawReady (elapse pf se d s) = excalidrawReady s \<and>
   excalidrawRef (elapse pf se d s) = excalidrawRef s \<and>
   sceneCalls (elapse pf se d s) = sceneCalls s"
  by (simp add: elapse_def Let_def fold_save_ticket_frame)

lemma handleChange_frame:
  "initialData (handleChange els ast fls s) = initialData s \<and>
   excalidrawReady (handleChange els ast fls s) = excalidrawReady s \<and>
   excalidrawRef (handleChange els ast fls s) = excalidrawRef s \<and>
   sceneCalls (handleChange els ast fls s) = sceneCalls s"
  by (simp add: handleChange_def setTimeout_def clearTimeout_def split: option.splits)

lemma toggleStar_frame:
  "initialData (toggleStar x s) = initialData s \<and>
   excalidrawReady (toggleStar x s) = excalidrawReady s \<and>
   excalidrawRef (toggleStar x s) = excalidrawRef s \<and>
   sceneCalls (toggleStar x s) = sceneCalls s"
  by (simp add: toggleStar_def Let_def setItem_def)

lemma quiet_step:
  "quiet ev \<Longrightarrow>
   initialData (step pf se ev s) = initialData s \<and>
   excalidrawReady (step pf se ev s) = excalidrawReady s \<and>
   excalidrawRef (step pf se ev s) = excalidrawRef s \<and>
   sceneCalls (step pf se ev s) = sceneCalls s"
  by (cases ev) (simp_all add: elapse_frame handleChange_frame toggleStar_frame)

lemma quiet_run:
  "list_all quiet evs \<Longrightarrow>
   initialData (run pf se evs s) = initialData s \<and>
   excalidrawReady (run pf se evs s) = excalidrawReady s \<and>
   excalidrawRef (run pf se evs s) = excalidrawRef s \<and>
   sceneCalls (run pf se evs s) = sceneCalls s"
  by (induction evs arbitrary: s) (simp_all add: quiet_step)

lemma canvas_ready_again:
  "excalidrawReady s \<Longrightarrow>
   excalidrawReady (canvas_ready pf s) \<and> sceneCalls (canvas_ready pf s) = sceneCalls s \<and>
   initialData (canvas_ready pf s) = initialData s"
  by (simp add: canvas_ready_def)

lemma ready_step:
  "not_bootstrap ev \<Longrightarrow> excalidrawReady s \<Longrightarrow>
   excalidrawReady (step pf se ev s) \<and> sceneCalls (step pf se ev s) = sceneCalls s"
  by (cases ev) (simp_all add: elapse_frame handleChange_frame toggleStar_frame canvas_ready_again)

lemma ready_run:
  "list_all not_bootstrap evs \<Longrightarrow> excalidrawReady s \<Longrightarrow>
   sceneCalls (run pf se evs s) = sceneCalls s"
proof (induction evs arbitrary: s)
  case Nil
  show ?case by simp
next
  case (Cons ev evs)
  from Cons.prems ready_step [of ev s pf se]
  have "excalidrawReady (step pf se ev s)" "sceneCalls (step pf se ev s) = sceneCalls s"
    by simp_all
  with Cons.IH [of "step pf se ev s"] Cons.prems(1) show ?case by simp
qed

lemma scene_effect_frame:
  "initialData (scene_effect pf s) = initialData s \<and>
   excalidrawReady (scene_effect pf s) = excalidrawReady s \<and>
   excalidrawRef (scene_effect pf s) = excalidrawRef s \<and>
   lastUpdated (scene_effect pf s) = lastUpdated s"
  by (simp add: scene_effect_def updateScene_def split: option.splits)

lemma scene_effect_calls:
  "sceneCalls (scene_effect pf s) =
     (case initialData s of
        None \<Rightarrow> sceneCalls s
      | Some d \<Rightarrow> if truthy (Some d) \<and> excalidrawReady s \<and> excalidrawRef s
                  then sceneCalls s @ [d] else sceneCalls s)"
  by (simp add: scene_effect_def updateScene_def split: option.splits)

lemma document_arrives:
  assumes "opt_prop (Some b) ''data'' = Some d" "truthy (Some d)" "typeof_object (Some d)"
  shows "initialData (step pf se (document_response b) s) = Some d"
    and "excalidrawReady (step pf se (document_response b) s) = excalidrawReady s"
    and "excalidrawRef (step pf se (document_response b) s) = excalidrawRef s"
    and "sceneCalls (step pf se (document_response b) s) =
           (if excalidrawReady s \<and> excalidrawRef s then sceneCalls s @ [d] else sceneCalls s)"
  using assms
  by (simp_all add: document_response_def bootstrap_settled_def Let_def scene_effect_frame
        scene_effect_calls split: option.splits sum.splits)

lemma canvas_becomes_ready:
  assumes "\<not> excalidrawReady s"
  shows "excalidrawReady (step pf se CanvasReady s)"
    and "excalidrawRef (step pf se CanvasReady s)"
    and "initialData (step pf se CanvasReady s) = initialData s"
    and "sceneCalls (step pf se CanvasReady s) =
           (case initialData s of
              None \<Rightarrow> sceneCalls s
            | Some d \<Rightarrow> if truthy (Some d) then sceneCalls s @ [d] else sceneCalls s)"
  using assms
  by (simp_all add: canvas_ready_def Let_def scene_effect_frame scene_effect_calls
        split: option.splits)

text \<open>
  Claim C2. The board starts without a Document and with the canvas not ready. The
  bootstrap read answers with a Document \<open>d\<close> and the canvas becomes ready, in either
  order, with changes, time and toggles before and between. Then \<^verbatim>\<open>updateScene\<close> has been
  called exactly once, with \<open>d\<close>, also after any later events other than a bootstrap
  answer; before the second of the two events it has not been called. This holds for every
  canvas, so also for one that throws on the call: nothing is retried.
\<close>

theorem scene_loaded_once:
  assumes "initialData s = None" and "\<not> excalidrawReady s"
    and "opt_prop (Some b) ''data'' = Some d" and "truthy (Some d)" and "typeof_object (Some d)"
    and "list_all quiet pre" and "list_all quiet mid" and "list_all not_bootstrap post"
  shows "sceneCalls (run pf se (pre @ [document_response b] @ mid @ [CanvasReady] @ post) s) =
           sceneCalls s @ [d] \<and>
         sceneCalls (run pf se (pre @ [CanvasReady] @ mid @ [document_response b] @ post) s) =
           sceneCalls s @ [d] \<and>
         sceneCalls (run pf se (pre @ [document_response b] @ mid) s) = sceneCalls s \<and>
         sceneCalls (run pf se (pre @ [CanvasReady] @ mid) s) = sceneCalls s"
proof -
  let ?s1 = "run pf se pre s"
  from quiet_run [OF assms(6), of pf se s] assms(1,2)
  have s1: "initialData ?s1 = None" "\<not> excalidrawReady ?s1" "sceneCalls ?s1 = sceneCalls s"
    by simp_all
  \<comment> \<open>the document first\<close>
  let ?a2 = "step pf se (document_response b) ?s1"
  from document_arrives [OF assms(3,4,5), of pf se ?s1] s1
  have a2: "initialData ?a2 = Some d" "\<not> excalidrawReady ?a2" "sceneCalls ?a2 = sceneCalls s"
    by simp_all
  let ?a3 = "run pf se mid ?a2"
  from quiet_run [OF assms(7), of pf se ?a2] a2
  have a3: "initialData ?a3 = Some d" "\<not> excalidrawReady ?a3" "sceneCalls ?a3 = sceneCalls s"
    by simp_all
  let ?a4 = "step pf se CanvasReady ?a3"
  from canvas_becomes_ready [OF a3(2), of pf se] a3 assms(4)
  have a4: "excalidrawReady ?a4" "sceneCalls ?a4 = sceneCalls s @ [d]"
    by simp_all
  from ready_run [OF assms(8) a4(1), of pf se] a4(2)
  have A: "sceneCalls (run pf se post ?a4) = sceneCalls s @ [d]" by simp
  \<comment> \<open>the canvas first\<close>
  let ?b2 = "step pf se CanvasReady ?s1"
  from canvas_becomes_ready [OF s1(2), of pf se] s1
  have b2: "excalidrawReady ?b2" "excalidrawRef ?b2" "sceneCalls ?b2 = sceneCalls s"
    by simp_all
  let ?b3 = "run pf se mid ?b2"
  from quiet_run [OF assms(7), of pf se ?b2] b2
  have b3: "excalidrawReady ?b3" "excalidrawRef ?b3" "sceneCalls ?b3 = sceneCalls s"
    by simp_all
  let ?b4 = "step pf se (document_response b) ?b3"
  from document_arrives [OF assms(3,4,5), of pf se ?b3] b3
  have b4: "excalidrawReady ?b4" "sceneCalls ?b4 = sceneCalls s @ [d]"
    by simp_all
  from ready_run [OF assms(8) b4(1), of pf se] b4(2)
  have B: "sceneCalls (run pf se post ?b4) = sceneCalls s @ [d]" by simp
  from A B a3(3) b3(3) show ?thesis
    by (simp add: run_append)
qed

text \<open>C2 at a canvas that rejects every scene, in both orders.\<close>

theorem scene_loaded_once_witness:
  "initialData fresh_board = None \<and> \<not> excalidrawReady fresh_board \<and>
   opt_prop (Some sample_body) ''data'' = Some sample_document \<and>
   truthy (Some sample_document) \<and> typeof_object (Some sample_document) \<and>
   list_all quiet [Change JNull JNull JNull] \<and> list_all quiet [Elapse 3] \<and>
   list_all not_bootstrap [CanvasReady, Elapse 2000] \<and>
   sceneCalls (run rejecting_platform sample_session
                 ([Change JNull JNull JNull] @ [document_response sample_body] @ [Elapse 3] @
                  [CanvasReady] @ [CanvasReady, Elapse 2000]) fresh_board) = [sample_document] \<and>
   sceneCalls (run rejecting_platform sample_session
                 ([Change JNull JNull JNull] @ [CanvasReady] @ [Elapse 3] @
                  [document_response sample_body] @ [CanvasReady, Elapse 2000]) fresh_board) =
     [sample_document]"
proof -
  have h1: "initialData fresh_board = None" and h2: "\<not> excalidrawReady fresh_board"
    and c: "sceneCalls fresh_board = []"
    by (simp_all add: fresh_board_def mount_def)
  have h3: "opt_prop (Some sample_body) ''data'' = Some sample_document"
    by (simp add: sample_body_def)
  have h4: "truthy (Some sample_document)" and h5: "typeof_object (Some sample_document)"
    by (simp_all add: sample_document_def)
  have h6: "list_all quiet [Change JNull JNull JNull]" and h7: "list_all quiet [Elapse 3]"
    and h8: "list_all not_bootstrap [CanvasReady, Elapse 2000]"
    by simp_all
  from scene_loaded_once [OF h1 h2 h3 h4 h5 h6 h7 h8, of rejecting_platform sample_session]
       h1 h2 h3 h4 h5 h6 h7 h8 c
  show ?thesis by simp
qed

lemma failed_read_noop: "failed_read r \<Longrightarrow> bootstrap_settled pf c1 c2 r s = s"
  by (cases r) (auto simp: bootstrap_settled_def Let_def)

lemma canvas_ready_empty:
  "initialData s = None \<Longrightarrow>
   initialData (canvas_ready pf s) = None \<and> sceneCalls (canvas_ready pf s) = sceneCalls s"
  by (simp add: canvas_ready_def Let_def scene_effect_frame scene_effect_calls)

lemma no_document_step:
  "no_document ev \<Longrightarrow> initialData s = None \<Longrightarrow>
   initialData (step pf se ev s) = None \<and> sceneCalls (step pf se ev s) = sceneCalls s"
  by (cases ev)
     (simp_all add: elapse_frame handleChange_frame toggleStar_frame canvas_ready_empty
        failed_read_noop)

lemma no_document_run:
  "list_all no_document evs \<Longrightarrow> initialData s = None \<Longrightarrow>
   initialData (run pf se evs s) = None \<and> sceneCalls (run pf se evs s) = sceneCalls s"
proof (induction evs arbitrary: s)
  case Nil
  then show ?case by simp
next
  case (Cons ev evs)
  from Cons.prems no_document_step [of ev s pf se]
  have "initialData (step pf se ev s) = None" "sceneCalls (step pf se ev s) = sceneCalls s"
    by simp_all
  with Cons.IH [of "step pf se ev s"] Cons.prems(1) show ?case by simp
qed

text \<open>
  Claim C5. A bootstrap read that fails (rejected request, status not OK, or a body that
  does not decode) leaves the whole state as it was, whatever local storage holds: the
  loader reads nothing from it. In a run whose bootstrap reads all fail, the Document stays
  unset and \<^verbatim>\<open>updateScene\<close> is never called.
\<close>

theorem failed_bootstrap_leaves_board_empty:
  "(failed_read r \<longrightarrow> bootstrap_settled pf c1 c2 r s = s) \<and>
   (initialData s = None \<and> list_all no_document evs \<longrightarrow>
      initialData (run pf se evs s) = None \<and> sceneCalls (run pf se evs s) = sceneCalls s)"
  using failed_read_noop [of r pf c1 c2 s] no_document_run [of evs s pf se] by blast

text \<open>C5 at the three kinds of failure.\<close>

theorem failed_bootstrap_witness:
  "failed_read Rejected \<and> failed_read (Responded False (Some sample_body)) \<and>
   failed_read (Responded True None) \<and>
   bootstrap_settled plain_platform False False (Responded True None) fresh_board = fresh_board \<and>
   initialData fresh_board = None \<and>
   list_all no_document
     [CanvasReady, BootstrapSettled False False (Responded False (Some sample_body)), CanvasReady,
      BootstrapSettled False False Rejected, Elapse 10] \<and>
   initialData (run plain_platform sample_session
     [CanvasReady, BootstrapSettled False False (Responded False (Some sample_body)), CanvasReady,
      BootstrapSettled False False Rejected, Elapse 10] fresh_board) = None \<and>
   sceneCalls (run plain_platform sample_session
     [CanvasReady, BootstrapSettled False False (Responded False (Some sample_body)), CanvasReady,
      BootstrapSettled False False Rejected, Elapse 10] fresh_board) = []"
proof -
  have f: "failed_read Rejected" "failed_read (Responded False (Some sample_body))"
    "failed_read (Responded True None)"
    by simp_all
  have i: "initialData fresh_board = None" and c: "sceneCalls fresh_board = []"
    by (simp_all add: fresh_board_def mount_def)
  have l: "list_all no_document
     [CanvasReady, BootstrapSettled False False (Responded False (Some sample_body)), CanvasReady,
      BootstrapSettled False False Rejected, Elapse 10]"
    by simp
  from failed_bootstrap_leaves_board_empty
         [of "Responded True None" plain_platform False False fresh_board
             "[CanvasReady, BootstrapSettled False False (Responded False (Some sample_body)),
               CanvasReady, BootstrapSettled False False Rejected, Elapse 10]" sample_session]
       f i c l
  show ?thesis by simp
qed

text \<open>
  Claim C8, as amended. When the body of an OK bootstrap response, not cancelled, has a
  truthy \<^verbatim>\<open>updatedAt\<close> that \<^verbatim>\<open>String\<close> prints, the text printed becomes the last-saved
  timestamp, whether or not the body has a \<^verbatim>\<open>data\<close> object.
\<close>

theorem bootstrap_updatedAt:
  assumes "opt_prop (Some b) ''updatedAt'' = Some u" and "truthy (Some u)"
    and "js_String u = Inr t"
  shows "lastUpdated (bootstrap_settled pf False False (Responded True (Some b)) s) = Some t"
  using assms by (simp add: bootstrap_settled_def Let_def scene_effect_frame)

text \<open>C8 at a body with \<^verbatim>\<open>data\<close> and at a body without.\<close>

theorem bootstrap_updatedAt_witness:
  "opt_prop (Some sample_body) ''updatedAt'' = Some (JStr ''2024-05-01T10:00:00.000Z'') \<and>
   truthy (Some (JStr ''2024-05-01T10:00:00.000Z'')) \<and>
   js_String (JStr ''2024-05-01T10:00:00.000Z'') = Inr ''2024-05-01T10:00:00.000Z'' \<and>
   lastUpdated (bootstrap_settled plain_platform False False (Responded True (Some sample_body))
                  fresh_board) = Some ''2024-05-01T10:00:00.000Z'' \<and>
   opt_prop (Some (JObj [(''updatedAt'', JNum ''1714557600000'')])) ''data'' = None \<and>
   lastUpdated (bootstrap_settled plain_platform False False
                  (Responded True (Some (JObj [(''updatedAt'', JNum ''1714557600000'')])))
                  fresh_board) = Some ''1714557600000''"
proof -
  have h1: "opt_prop (Some sample_body) ''updatedAt'' = Some (JStr ''2024-05-01T10:00:00.000Z'')"
    by (simp add: sample_body_def)
  have h2: "truthy (Some (JStr ''2024-05-01T10:00:00.000Z''))" by simp
  have h3: "js_String (JStr ''2024-05-01T10:00:00.000Z'') = Inr ''2024-05-01T10:00:00.000Z''"
    by simp
  have g1: "opt_prop (Some (JObj [(''updatedAt'', JNum ''1714557600000'')])) ''updatedAt'' =
              Some (JNum ''1714557600000'')"
    and g2: "truthy (Some (JNum ''1714557600000''))"
    and g3: "js_String (JNum ''1714557600000'') = Inr ''1714557600000''"
    and g4: "opt_prop (Some (JObj [(''updatedAt'', JNum ''1714557600000'')])) ''data'' = None"
    by simp_all
  from bootstrap_updatedAt [OF h1 h2 h3, of plain_platform fresh_board]
       bootstrap_updatedAt [OF g1 g2 g3, of plain_platform fresh_board] h1 h2 h3 g4
  show ?thesis by simp
qed

text \<open>
  Claim C8 as stated asks only that the body contains the field. A body whose
  \<^verbatim>\<open>updatedAt\<close> is 0, or the empty string, or an object with a member named
  \<^verbatim>\<open>toString\<close>, contains it and leaves the timestamp unset.
\<close>

theorem falsy_updatedAt_counterexample:
  "opt_prop (Some (JObj [(''updatedAt'', JNum ''0'')])) ''updatedAt'' = Some (JNum ''0'') \<and>
   lastUpdated (bootstrap_settled plain_platform False False
                  (Responded True (Some (JObj [(''updatedAt'', JNum ''0'')]))) fresh_board) = None \<and>
   opt_prop (Some (JObj [(''updatedAt'', JStr [])])) ''updatedAt'' = Some (JStr []) \<and>
   lastUpdated (bootstrap_settled plain_platform False False
                  (Responded True (Some (JObj [(''updatedAt'', JStr [])]))) fresh_board) = None \<and>
   opt_prop (Some (JObj [(''updatedAt'', JObj [(''toString'', JNull)])])) ''updatedAt'' =
     Some (JObj [(''toString'', JNull)]) \<and>
   lastUpdated (bootstrap_settled plain_platform False False
                  (Responded True (Some (JObj [(''updatedAt'', JObj [(''toString'', JNull)])])))
                  fresh_board) = None"
  by (simp add: bootstrap_settled_def fresh_board_def mount_def)

section \<open>The anti-forgery header: proofs\<close>

lemma js_or_first_nonempty:
  "(case js_or (js_or a b) c of None \<Rightarrow> None | Some t \<Rightarrow> if t \<noteq> [] then Some t else None) =
   first_nonempty [a, b, c]"
  by (auto simp: js_or_def first_nonempty_def split: option.splits)

lemma save_headers_spec:
  "save_headers pf ck = token_header (first_nonempty (map (getCookie pf ck) csrf_cookie_names))"
proof -
  let ?a = "getCookie pf ck ''csrfToken''"
  let ?b = "getCookie pf ck ''csrf-token''"
  let ?c = "getCookie pf ck ''csrf_token''"
  have "save_headers pf ck =
        token_header (case js_or (js_or ?a ?b) ?c of
                        None \<Rightarrow> None | Some t \<Rightarrow> if t \<noteq> [] then Some t else None)"
    by (simp add: save_headers_def token_header_def Let_def split: option.splits)
  then show ?thesis
    by (simp add: js_or_first_nonempty csrf_cookie_names_def)
qed

lemma key_prefix:
  "CHR ''='' \<notin> set a \<Longrightarrow> CHR ''='' \<notin> set b \<Longrightarrow>
   prefix (a @ CHR ''='' # x) (b @ CHR ''='' # y) \<longleftrightarrow> a = b \<and> prefix x y"
proof (induction a arbitrary: b)
  case Nil
  then show ?case by (cases b) auto
next
  case (Cons c a)
  then show ?case by (cases b) auto
qed

lemma match_later_skip:
  "CHR '';'' \<notin> set w \<Longrightarrow> match_later name (w @ r) = match_later name r"
  by (induction w) auto

lemma cookie_value_stop:
  "CHR '';'' \<notin> set v \<Longrightarrow> r = [] \<or> hd r = CHR '';'' \<Longrightarrow> cookie_value (v @ r) = v"
proof (induction v)
  case Nil
  then show ?case by (cases r) (auto simp: cookie_value_def)
next
  case (Cons c v)
  then show ?case by (auto simp: cookie_value_def)
qed

lemma drop_later: "drop (length name + 3) (''; '' @ name @ ''='' @ r) = r"
  by (simp add: numeral_3_eq_3)

lemma drop_first: "drop (length name + 1) (name @ ''='' @ r) = r"
  by simp

lemma render_jar_Cons:
  "render_jar ((k, v) # ps) = k @ CHR ''='' # v @ (if ps = [] then [] else ''; '' @ render_jar ps)"
  by (cases ps) auto

lemma match_later_jar:
  "jar_ok (p # ps) \<Longrightarrow> CHR ''='' \<notin> set name \<Longrightarrow>
   match_later name (render_jar (p # ps)) = map_of ps name"
proof (induction ps arbitrary: p)
  case Nil
  obtain k v where p: "p = (k, v)" by (cases p)
  with Nil have "CHR '';'' \<notin> set (k @ CHR ''='' # v)" by (simp add: jar_ok_def)
  from match_later_skip [OF this, of name "[]"] p show ?case by simp
next
  case (Cons q qs)
  obtain k v where p: "p = (k, v)" by (cases p)
  obtain k' v' where q: "q = (k', v')" by (cases q)
  from Cons.prems p q have ok: "CHR '';'' \<notin> set (k @ CHR ''='' # v)"
    "CHR ''='' \<notin> set k'" "CHR '';'' \<notin> set v'" "jar_ok (q # qs)"
    by (simp_all add: jar_ok_def)
  let ?tail = "render_jar (q # qs)"
  have tail: "?tail = k' @ CHR ''='' # v' @ (if qs = [] then [] else ''; '' @ render_jar qs)"
    by (simp add: q render_jar_Cons)
  have "match_later name (render_jar (p # q # qs)) = match_later name (''; '' @ ?tail)"
    using match_later_skip [OF ok(1), of name "''; '' @ ?tail"] by (simp add: p q)
  also have "\<dots> = (if k' = name then Some v' else map_of qs name)"
  proof (cases "k' = name")
    case True
    have "prefix (''; '' @ name @ ''='') (''; '' @ ?tail)"
      by (simp add: tail True)
    moreover have "''; '' @ ?tail =
        ''; '' @ name @ ''='' @ (v' @ (if qs = [] then [] else ''; '' @ render_jar qs))"
      by (simp add: tail True)
    then have "cookie_value (drop (length name + 3) (''; '' @ ?tail)) = v'"
      using cookie_value_stop [OF ok(3), of "if qs = [] then [] else ''; '' @ render_jar qs"]
      by (simp only: drop_later) simp
    ultimately show ?thesis using True by simp
  next
    case False
    have "\<not> prefix (name @ CHR ''='' # []) ?tail"
      unfolding tail using key_prefix [OF Cons.prems(2) ok(2)] False by auto
    then have "\<not> prefix (''; '' @ name @ ''='') (''; '' @ ?tail)" by simp
    then have "match_later name (''; '' @ ?tail) = match_later name ?tail"
      by simp
    with Cons.IH [OF ok(4) Cons.prems(2)] False show ?thesis by simp
  qed
  finally show ?case by (simp add: q)
qed

lemma cookie_match_jar:
  assumes "jar_ok jar" "CHR ''='' \<notin> set name"
  shows "cookie_match name (render_jar jar) = map_of jar name"
proof (cases jar)
  case Nil
  then show ?thesis by (simp add: cookie_match_def)
next
  case (Cons p ps)
  obtain k v where p: "p = (k, v)" by (cases p)
  from assms(1) Cons p have ok: "CHR ''='' \<notin> set k" "CHR '';'' \<notin> set v"
    by (simp_all add: jar_ok_def)
  let ?r = "if ps = [] then [] else ''; '' @ render_jar ps"
  have r: "render_jar jar = k @ CHR ''='' # v @ ?r"
    by (simp add: Cons p render_jar_Cons)
  show ?thesis
  proof (cases "k = name")
    case True
    have "render_jar jar = name @ ''='' @ (v @ ?r)" by (simp add: r True)
    then have "cookie_value (drop (length name + 1) (render_jar jar)) = v"
      using cookie_value_stop [OF ok(2), of ?r] by (simp only: drop_first) simp
    moreover have "prefix (name @ ''='') (render_jar jar)" by (simp add: r True)
    ultimately show ?thesis by (simp add: cookie_match_def Cons p True)
  next
    case False
    have "\<not> prefix (name @ ''='') (render_jar jar)"
      unfolding r using key_prefix [OF assms(2) ok(1), of "[]"] False by auto
    with match_later_jar [of p ps name] assms Cons False p show ?thesis
      by (simp add: cookie_match_def)
  qed
qed

lemma getCookie_jar:
  "jar_ok jar \<Longrightarrow> CHR ''='' \<notin> set name \<Longrightarrow>
   getCookie pf (Some (render_jar jar)) name = named_cookie pf jar name"
  by (simp add: getCookie_def named_cookie_def cookie_match_jar)

text \<open>
  Claim C6. When a ticket fires in a session with a project identifier, the request is
  issued, and its headers are the content type followed by \<^verbatim>\<open>X-CSRF-Token\<close> with the
  first non-empty value among the cookies \<^verbatim>\<open>csrfToken\<close>, \<^verbatim>\<open>csrf-token\<close>, \<^verbatim>\<open>csrf_token\<close>, in
  that order, when there is one. When the cookies cannot be read the request carries the
  content type alone. For a cookie text that lists names and values, the value read for
  a name is the decoded value of the first cookie of that name.
\<close>

theorem csrf_header:
  assumes "projectId se = Some p" and "p \<noteq> []"
  shows "\<exists>r. fetches (save_ticket pf se t s) = fetches s @ [r] \<and>
             headers r =
               token_header (first_nonempty (map (getCookie pf (cookie s)) csrf_cookie_names)) \<and>
             (cookie s = None \<longrightarrow> headers r = [(''Content-Type'', ''application/json'')]) \<and>
             (jar_ok jar \<and> cookie s = Some (render_jar jar) \<longrightarrow>
                headers r =
                  token_header (first_nonempty (map (named_cookie pf jar) csrf_cookie_names)))"
proof (intro exI conjI impI)
  let ?r = "save_request pf se (cookie s) p t"
  show "fetches (save_ticket pf se t s) = fetches s @ [?r]"
    by (rule save_ticket_fetches [OF assms])
  show h: "headers ?r =
      token_header (first_nonempty (map (getCookie pf (cookie s)) csrf_cookie_names))"
    by (simp add: save_request_def save_headers_spec)
  show "headers ?r = [(''Content-Type'', ''application/json'')]" if "cookie s = None"
    unfolding h using that
    by (simp add: getCookie_def csrf_cookie_names_def first_nonempty_def token_header_def)
  show "headers ?r =
      token_header (first_nonempty (map (named_cookie pf jar) csrf_cookie_names))"
    if "jar_ok jar \<and> cookie s = Some (render_jar jar)"
    unfolding h using that by (simp add: csrf_cookie_names_def getCookie_jar)
qed

text \<open>
  C6 at a jar whose \<^verbatim>\<open>csrfToken\<close> is empty and whose \<^verbatim>\<open>csrf-token\<close> is tok, and at a
  board whose cookies cannot be read.
\<close>

theorem csrf_header_witness:
  "projectId sample_session = Some ''p1'' \<and> jar_ok sample_jar \<and>
   cookie fresh_board = Some (render_jar sample_jar) \<and>
   (\<exists>r. fetches (save_ticket plain_platform sample_session sample_ticket fresh_board) =
          fetches fresh_board @ [r] \<and>
        headers r = [(''Content-Type'', ''application/json''), (''X-CSRF-Token'', ''tok'')]) \<and>
   cookie locked_board = None \<and>
   (\<exists>r. fetches (save_ticket plain_platform sample_session sample_ticket locked_board) =
          fetches locked_board @ [r] \<and>
        headers r = [(''Content-Type'', ''application/json'')])"
proof -
  have h1: "projectId sample_session = Some ''p1''" by (simp add: sample_session_def)
  have h2: "''p1'' \<noteq> []" by simp
  have j: "jar_ok sample_jar" by code_simp
  have c: "cookie fresh_board = Some (render_jar sample_jar)"
    by (simp add: fresh_board_def mount_def)
  have n: "cookie locked_board = None" by (simp add: locked_board_def mount_def)
  have v: "token_header (first_nonempty (map (named_cookie plain_platform sample_jar)
             csrf_cookie_names)) =
           [(''Content-Type'', ''application/json''), (''X-CSRF-Token'', ''tok'')]"
    by code_simp
  from csrf_header [OF h1 h2, of plain_platform sample_ticket fresh_board sample_jar] j c v
  have a: "\<exists>r. fetches (save_ticket plain_platform sample_session sample_ticket fresh_board) =
          fetches fresh_board @ [r] \<and>
        headers r = [(''Content-Type'', ''application/json''), (''X-CSRF-Token'', ''tok'')]"
    by auto
  from csrf_header [OF h1 h2, of plain_platform sample_ticket locked_board sample_jar] n
  have b: "\<exists>r. fetches (save_ticket plain_platform sample_session sample_ticket locked_board) =
          fetches locked_board @ [r] \<and>
        headers r = [(''Content-Type'', ''application/json'')]"
    by auto
  from h1 j c a n b show ?thesis by blast
qed

end
